theory Spec2Isabelle
  imports Main "HOL-Library.Word" "HOL-Library.Multiset"
begin

unbundle bit_operations_syntax

section \<open>The Data Store and the scanner's mutation commands\<close>

text \<open>
  The scanner (\<^verbatim>\<open>scanner.js\<close>) reads \<^verbatim>\<open>data.json\<close> in full, changes the parsed
  tree in memory and writes it back in full. The tree is modelled with one record per
  level. A field the commands create or \<^verbatim>\<open>delete\<close> is an option (\<open>None\<close>: the
  property is absent); \<^verbatim>\<open>tasks\<close> and \<^verbatim>\<open>subtasks\<close> are options because the code
  tests them for truthiness before every loop, while \<^verbatim>\<open>milestones\<close> is iterated
  unguarded. Identifiers are only compared with \<^verbatim>\<open>===\<close> and tested for emptiness,
  so they are kept as HOL strings.
\<close>

record subtask =
  s_id :: string
  s_name :: string
  s_done :: bool
  s_current :: "bool option"
  s_completedAt :: "string option"

record task =
  t_id :: string
  t_name :: string
  t_done :: bool
  t_current :: "bool option"
  t_completedAt :: "string option"
  t_subtasks :: "subtask list option"

record milestone =
  m_id :: string
  m_name :: string
  m_done :: bool
  m_current :: "bool option"
  m_completedAt :: "string option"
  m_tasks :: "task list option"

record project =
  p_id :: string
  p_name :: string
  p_milestones :: "milestone list"

record meta =
  lastUpdated :: string
  lastScanType :: string

record document =
  meta :: meta
  projects :: "project list"

text \<open>
  Every way a command can end. \<open>Failed\<close> is \<^verbatim>\<open>process.exit(1)\<close> before any write,
  \<open>Finished\<close> a normal end without a write, \<open>Saved d\<close> a normal end after
  \<^verbatim>\<open>saveData\<close> wrote \<open>d\<close>.
\<close>

datatype error = StoreUnreadable | NotFound | MissingArgument

datatype outcome = Failed error | Finished | Saved document

fun exit_code :: "outcome \<Rightarrow> nat" where
  "exit_code (Failed e) = 1"
| "exit_code Finished = 0"
| "exit_code (Saved d) = 0"

text \<open>The Data Store after a command: \<open>None\<close> stands for a missing or unparsable file.\<close>

fun store_after :: "document option \<Rightarrow> outcome \<Rightarrow> document option" where
  "store_after store (Saved d) = Some d"
| "store_after store (Failed e) = store"
| "store_after store Finished = store"

definition loadData :: "document option \<Rightarrow> error + document" where
  "loadData store = (case store of None \<Rightarrow> Inl StoreUnreadable | Some data \<Rightarrow> Inr data)"

definition saveData :: "string \<Rightarrow> document \<Rightarrow> document" where
  "saveData now data = data\<lparr>meta := (meta data)\<lparr>lastUpdated := now\<rparr>\<rparr>"

subsection \<open>findTaskById\<close>

text \<open>
  \<^verbatim>\<open>findTaskById\<close> returns references into the tree (\<^verbatim>\<open>item\<close>, \<^verbatim>\<open>parent\<close>) and a
  \<^verbatim>\<open>type\<close> tag. \<^verbatim>\<open>JSON.parse\<close> builds a tree without sharing, so a reference is
  the position of the node: project, milestone, task and subtask index.
\<close>

datatype found =
  FoundMilestone nat nat
| FoundTask nat nat nat
| FoundSubtask nat nat nat nat

fun findIndex :: "('a \<Rightarrow> bool) \<Rightarrow> 'a list \<Rightarrow> int" where
  "findIndex P [] = -1"
| "findIndex P (x # xs) = (if P x then 0 else (let i = findIndex P xs in if i < 0 then -1 else i + 1))"

fun findSubtask :: "string \<Rightarrow> subtask list \<Rightarrow> nat option" where
  "findSubtask taskId [] = None"
| "findSubtask taskId (s # ss) =
     (if s_id s = taskId then Some 0 else map_option Suc (findSubtask taskId ss))"

fun findInTasks :: "string \<Rightarrow> task list \<Rightarrow> (nat \<times> nat option) option" where
  "findInTasks taskId [] = None"
| "findInTasks taskId (t # ts) =
     (if t_id t = taskId then Some (0, None)
      else (case (case t_subtasks t of None \<Rightarrow> None | Some ss \<Rightarrow> findSubtask taskId ss) of
              Some si \<Rightarrow> Some (0, Some si)
            | None \<Rightarrow> map_option (\<lambda>(ti, r). (Suc ti, r)) (findInTasks taskId ts)))"

fun findInMilestones :: "string \<Rightarrow> milestone list \<Rightarrow> (nat \<times> (nat \<times> nat option) option) option" where
  "findInMilestones taskId [] = None"
| "findInMilestones taskId (m # ms) =
     (if m_id m = taskId then Some (0, None)
      else (case (case m_tasks m of None \<Rightarrow> None | Some ts \<Rightarrow> findInTasks taskId ts) of
              Some r \<Rightarrow> Some (0, Some r)
            | None \<Rightarrow> map_option (\<lambda>(mi, r). (Suc mi, r)) (findInMilestones taskId ms)))"

fun findInProjects :: "string \<Rightarrow> project list \<Rightarrow> (nat \<times> nat \<times> (nat \<times> nat option) option) option" where
  "findInProjects taskId [] = None"
| "findInProjects taskId (p # ps) =
     (case findInMilestones taskId (p_milestones p) of
        Some r \<Rightarrow> Some (0, r)
      | None \<Rightarrow> map_option (\<lambda>(pi, r). (Suc pi, r)) (findInProjects taskId ps))"

definition findTaskById :: "document \<Rightarrow> string \<Rightarrow> found option" where
  "findTaskById data taskId =
     (case findInProjects taskId (projects data) of
        None \<Rightarrow> None
      | Some (pi, mi, None) \<Rightarrow> Some (FoundMilestone pi mi)
      | Some (pi, mi, Some (ti, None)) \<Rightarrow> Some (FoundTask pi mi ti)
      | Some (pi, mi, Some (ti, Some si)) \<Rightarrow> Some (FoundSubtask pi mi ti si))"

subsection \<open>Assignments through a reference\<close>

definition upd_at :: "nat \<Rightarrow> ('a \<Rightarrow> 'a) \<Rightarrow> 'a list \<Rightarrow> 'a list" where
  "upd_at i f xs = (if i < length xs then xs[i := f (xs ! i)] else xs)"

definition upd_milestone :: "nat \<Rightarrow> nat \<Rightarrow> (milestone \<Rightarrow> milestone) \<Rightarrow> document \<Rightarrow> document" where
  "upd_milestone pi mi f data =
     data\<lparr>projects := upd_at pi (\<lambda>p. p\<lparr>p_milestones := upd_at mi f (p_milestones p)\<rparr>) (projects data)\<rparr>"

definition upd_task :: "nat \<Rightarrow> nat \<Rightarrow> nat \<Rightarrow> (task \<Rightarrow> task) \<Rightarrow> document \<Rightarrow> document" where
  "upd_task pi mi ti f data =
     upd_milestone pi mi (\<lambda>m. m\<lparr>m_tasks := map_option (upd_at ti f) (m_tasks m)\<rparr>) data"

definition upd_subtask :: "nat \<Rightarrow> nat \<Rightarrow> nat \<Rightarrow> nat \<Rightarrow> (subtask \<Rightarrow> subtask) \<Rightarrow> document \<Rightarrow> document" where
  "upd_subtask pi mi ti si f data =
     upd_task pi mi ti (\<lambda>t. t\<lparr>t_subtasks := map_option (upd_at si f) (t_subtasks t)\<rparr>) data"

text \<open>Reading through a reference; \<open>None\<close> where the position does not exist.\<close>

definition nth_opt :: "'a list \<Rightarrow> nat \<Rightarrow> 'a option" where
  "nth_opt xs i = (if i < length xs then Some (xs ! i) else None)"

definition milestone_at :: "document \<Rightarrow> nat \<Rightarrow> nat \<Rightarrow> milestone option" where
  "milestone_at data pi mi =
     (case nth_opt (projects data) pi of None \<Rightarrow> None | Some p \<Rightarrow> nth_opt (p_milestones p) mi)"

definition task_at :: "document \<Rightarrow> nat \<Rightarrow> nat \<Rightarrow> nat \<Rightarrow> task option" where
  "task_at data pi mi ti =
     (case milestone_at data pi mi of
        None \<Rightarrow> None
      | Some m \<Rightarrow> (case m_tasks m of None \<Rightarrow> None | Some ts \<Rightarrow> nth_opt ts ti))"

definition subtasks_at :: "document \<Rightarrow> nat \<Rightarrow> nat \<Rightarrow> nat \<Rightarrow> subtask list option" where
  "subtasks_at data pi mi ti =
     (case task_at data pi mi ti of None \<Rightarrow> None | Some t \<Rightarrow> t_subtasks t)"

definition subtask_at :: "document \<Rightarrow> nat \<Rightarrow> nat \<Rightarrow> nat \<Rightarrow> nat \<Rightarrow> subtask option" where
  "subtask_at data pi mi ti si =
     (case subtasks_at data pi mi ti of None \<Rightarrow> None | Some ss \<Rightarrow> nth_opt ss si)"

subsection \<open>clearCurrentFlags\<close>

definition clear_subtask :: "subtask \<Rightarrow> subtask" where
  "clear_subtask s = s\<lparr>s_current := None\<rparr>"

definition clear_task :: "task \<Rightarrow> task" where
  "clear_task t = t\<lparr>t_current := None, t_subtasks := map_option (map clear_subtask) (t_subtasks t)\<rparr>"

definition clear_milestone :: "milestone \<Rightarrow> milestone" where
  "clear_milestone m = m\<lparr>m_current := None, m_tasks := map_option (map clear_task) (m_tasks m)\<rparr>"

definition clear_project :: "project \<Rightarrow> project" where
  "clear_project p = p\<lparr>p_milestones := map clear_milestone (p_milestones p)\<rparr>"

definition clearCurrentFlags :: "document \<Rightarrow> document" where
  "clearCurrentFlags data = data\<lparr>projects := map clear_project (projects data)\<rparr>"

subsection \<open>cmdMarkDone\<close>

text \<open>
  \<^verbatim>\<open>found.item.done = true; found.item.completedAt = ...; delete found.item.current\<close>,
  for each of the three kinds of node. \<open>stamp\<close> is the clock reading of
  \<^verbatim>\<open>new Date().toISOString()\<close>.
\<close>

definition mark_item :: "found \<Rightarrow> string \<Rightarrow> document \<Rightarrow> document" where
  "mark_item f stamp data =
     (case f of
        FoundMilestone pi mi \<Rightarrow>
          upd_milestone pi mi (\<lambda>m. m\<lparr>m_done := True, m_completedAt := Some stamp, m_current := None\<rparr>) data
      | FoundTask pi mi ti \<Rightarrow>
          upd_task pi mi ti (\<lambda>t. t\<lparr>t_done := True, t_completedAt := Some stamp, t_current := None\<rparr>) data
      | FoundSubtask pi mi ti si \<Rightarrow>
          upd_subtask pi mi ti si (\<lambda>s. s\<lparr>s_done := True, s_completedAt := Some stamp, s_current := None\<rparr>) data)"

text \<open>
  The auto-advance: for a subtask whose parent has \<^verbatim>\<open>subtasks\<close>, the index of the
  first sibling with the id is looked up again with \<^verbatim>\<open>findIndex\<close> (\<open>-1\<close> when there
  is none), and the sibling after it, when there is one, is made current.
\<close>

definition advance :: "found \<Rightarrow> string \<Rightarrow> document \<Rightarrow> document" where
  "advance f taskId data =
     (case f of
        FoundSubtask pi mi ti si \<Rightarrow>
          (case subtasks_at data pi mi ti of
             None \<Rightarrow> data
           | Some subs \<Rightarrow>
               (let idx = findIndex (\<lambda>s. s_id s = taskId) subs in
                if idx < int (length subs) - 1
                then upd_subtask pi mi ti (nat (idx + 1)) (\<lambda>s. s\<lparr>s_current := Some True\<rparr>) data
                else data))
      | _ \<Rightarrow> data)"

definition cmdMarkDone :: "string \<Rightarrow> string \<Rightarrow> string \<Rightarrow> document option \<Rightarrow> outcome" where
  "cmdMarkDone stamp now taskId store =
     (case loadData store of
        Inl e \<Rightarrow> Failed e
      | Inr data \<Rightarrow>
          (case findTaskById data taskId of
             None \<Rightarrow> Failed NotFound
           | Some f \<Rightarrow> Saved (saveData now (advance f taskId (mark_item f stamp data)))))"

subsection \<open>cmdSetCurrent\<close>

definition set_item_current :: "found \<Rightarrow> document \<Rightarrow> document" where
  "set_item_current f data =
     (case f of
        FoundMilestone pi mi \<Rightarrow> upd_milestone pi mi (\<lambda>m. m\<lparr>m_current := Some True\<rparr>) data
      | FoundTask pi mi ti \<Rightarrow> upd_task pi mi ti (\<lambda>t. t\<lparr>t_current := Some True\<rparr>) data
      | FoundSubtask pi mi ti si \<Rightarrow> upd_subtask pi mi ti si (\<lambda>s. s\<lparr>s_current := Some True\<rparr>) data)"

text \<open>
  \<^verbatim>\<open>milestone.tasks.some(t => t.id === taskId || (t.subtasks && t.subtasks.some(s => s.id === taskId)))\<close>,
  under the guard \<^verbatim>\<open>if (milestone.tasks)\<close>.
\<close>

definition hasTask :: "string \<Rightarrow> milestone \<Rightarrow> bool" where
  "hasTask taskId m =
     (case m_tasks m of
        None \<Rightarrow> False
      | Some ts \<Rightarrow>
          list_ex (\<lambda>t. t_id t = taskId \<or>
                    (case t_subtasks t of None \<Rightarrow> False | Some ss \<Rightarrow> list_ex (\<lambda>s. s_id s = taskId) ss)) ts)"

text \<open>
  The inner loop over one project's milestones: the first milestone with the task is
  marked and \<^verbatim>\<open>break\<close> leaves this loop. The outer loop over the projects goes on.
\<close>

fun mark_first :: "string \<Rightarrow> milestone list \<Rightarrow> milestone list" where
  "mark_first taskId [] = []"
| "mark_first taskId (m # ms) =
     (if hasTask taskId m then m\<lparr>m_current := Some True\<rparr> # ms else m # mark_first taskId ms)"

definition mark_parent_milestone :: "found \<Rightarrow> string \<Rightarrow> document \<Rightarrow> document" where
  "mark_parent_milestone f taskId data =
     (case f of
        FoundMilestone pi mi \<Rightarrow> data
      | _ \<Rightarrow> data\<lparr>projects := map (\<lambda>p. p\<lparr>p_milestones := mark_first taskId (p_milestones p)\<rparr>) (projects data)\<rparr>)"

definition cmdSetCurrent :: "string \<Rightarrow> string \<Rightarrow> document option \<Rightarrow> outcome" where
  "cmdSetCurrent now taskId store =
     (case loadData store of
        Inl e \<Rightarrow> Failed e
      | Inr data \<Rightarrow>
          (case findTaskById data taskId of
             None \<Rightarrow> Failed NotFound
           | Some f \<Rightarrow>
               Saved (saveData now
                 (mark_parent_milestone f taskId (set_item_current f (clearCurrentFlags data))))))"

subsection \<open>The other commands and the dispatch on the arguments\<close>

text \<open>
  \<^verbatim>\<open>cmdScan\<close> reads directories, \<^verbatim>\<open>git\<close> and PRD files only to print them (each
  probe is wrapped in \<^verbatim>\<open>try\<close>), and its project argument only selects what is
  printed; its effect on the store is \<^verbatim>\<open>lastScanType = 'auto'\<close> and the save. \<^verbatim>\<open>cmdStatus\<close> loads and prints,
  \<^verbatim>\<open>cmdHelp\<close> only prints.
\<close>

definition cmdScan :: "string \<Rightarrow> document option \<Rightarrow> outcome" where
  "cmdScan now store =
     (case loadData store of
        Inl e \<Rightarrow> Failed e
      | Inr data \<Rightarrow> Saved (saveData now (data\<lparr>meta := (meta data)\<lparr>lastScanType := ''auto''\<rparr>\<rparr>)))"

definition cmdStatus :: "document option \<Rightarrow> outcome" where
  "cmdStatus store = (case loadData store of Inl e \<Rightarrow> Failed e | Inr data \<Rightarrow> Finished)"

text \<open>
  \<^verbatim>\<open>args[args.indexOf(flag) + 1]\<close>: the argument after the first occurrence of the
  flag, \<open>None\<close> (\<^verbatim>\<open>undefined\<close>) when the flag is last.
\<close>

fun arg_after :: "string \<Rightarrow> string list \<Rightarrow> string option" where
  "arg_after flag [] = None"
| "arg_after flag [a] = None"
| "arg_after flag (a # b # rest) = (if a = flag then Some b else arg_after flag (b # rest))"

text \<open>\<^verbatim>\<open>!taskId\<close>: the argument is \<^verbatim>\<open>undefined\<close> or the empty string.\<close>

definition missing :: "string option \<Rightarrow> bool" where
  "missing a = (case a of None \<Rightarrow> True | Some s \<Rightarrow> s = [])"

definition main :: "string list \<Rightarrow> string \<Rightarrow> string \<Rightarrow> document option \<Rightarrow> outcome" where
  "main args stamp now store =
     (if ''--help'' \<in> set args \<or> ''-h'' \<in> set args then Finished
      else if ''--status'' \<in> set args then cmdStatus store
      else if ''--mark-done'' \<in> set args then
        (if missing (arg_after ''--mark-done'' args) then Failed MissingArgument
         else cmdMarkDone stamp now (the (arg_after ''--mark-done'' args)) store)
      else if ''--set-current'' \<in> set args then
        (if missing (arg_after ''--set-current'' args) then Failed MissingArgument
         else cmdSetCurrent now (the (arg_after ''--set-current'' args)) store)
      else if ''--project'' \<in> set args then cmdScan now store
      else cmdScan now store)"

subsection \<open>What the claims observe\<close>

text \<open>The document a command wrote, when it wrote one.\<close>

definition saved_doc :: "outcome \<Rightarrow> document option" where
  "saved_doc out = (case out of Saved d \<Rightarrow> Some d | _ \<Rightarrow> None)"

text \<open>
  \<open>blank_changed\<close> blanks exactly what Mark-done on the subtask at a position may
  write: \<^verbatim>\<open>done\<close>, \<^verbatim>\<open>completedAt\<close> and \<^verbatim>\<open>current\<close> of that subtask,
  \<^verbatim>\<open>current\<close> of the sibling after it, and \<^verbatim>\<open>meta.lastUpdated\<close>. Two documents
  with the same image agree on every other field of every node.
\<close>

definition blank_changed :: "nat \<Rightarrow> nat \<Rightarrow> nat \<Rightarrow> nat \<Rightarrow> document \<Rightarrow> document" where
  "blank_changed pi mi ti si d =
     upd_subtask pi mi ti si (\<lambda>s. s\<lparr>s_done := False, s_completedAt := None, s_current := None\<rparr>)
       (upd_subtask pi mi ti (Suc si) (\<lambda>s. s\<lparr>s_current := None\<rparr>)
          (d\<lparr>meta := (meta d)\<lparr>lastUpdated := []\<rparr>\<rparr>))"

text \<open>The positions of the siblings whose \<^verbatim>\<open>current\<close> is \<^verbatim>\<open>true\<close>.\<close>

definition current_siblings :: "subtask list \<Rightarrow> nat list" where
  "current_siblings ss = filter (\<lambda>j. s_current (ss ! j) = Some True) [0..<length ss]"

definition siblings_after :: "outcome \<Rightarrow> nat \<Rightarrow> nat \<Rightarrow> nat \<Rightarrow> subtask list option" where
  "siblings_after out pi mi ti = (case out of Saved d \<Rightarrow> subtasks_at d pi mi ti | _ \<Rightarrow> None)"

text \<open>
  The number of nodes with \<^verbatim>\<open>current === true\<close> at each level of a document. The
  counts go through the same guards as the code's loops: a milestone without
  \<^verbatim>\<open>tasks\<close> has no tasks, a task without \<^verbatim>\<open>subtasks\<close> no subtasks.
\<close>

definition cur_s :: "subtask \<Rightarrow> nat" where
  "cur_s s = (if s_current s = Some True then 1 else 0)"

definition cur_t :: "task \<Rightarrow> nat" where
  "cur_t t = (if t_current t = Some True then 1 else 0)"

definition cur_m :: "milestone \<Rightarrow> nat" where
  "cur_m m = (if m_current m = Some True then 1 else 0)"

definition subtasks_of_task :: "task \<Rightarrow> nat" where
  "subtasks_of_task t = (case t_subtasks t of None \<Rightarrow> 0 | Some ss \<Rightarrow> sum_list (map cur_s ss))"

definition tasks_of_milestone :: "milestone \<Rightarrow> nat" where
  "tasks_of_milestone m = (case m_tasks m of None \<Rightarrow> 0 | Some ts \<Rightarrow> sum_list (map cur_t ts))"

definition subtasks_of_milestone :: "milestone \<Rightarrow> nat" where
  "subtasks_of_milestone m =
     (case m_tasks m of None \<Rightarrow> 0 | Some ts \<Rightarrow> sum_list (map subtasks_of_task ts))"

definition count_in :: "(milestone \<Rightarrow> nat) \<Rightarrow> document \<Rightarrow> nat" where
  "count_in g data = sum_list (map (\<lambda>p. sum_list (map g (p_milestones p))) (projects data))"

definition current_milestones :: "document \<Rightarrow> nat" where
  "current_milestones data = count_in cur_m data"

definition current_tasks :: "document \<Rightarrow> nat" where
  "current_tasks data = count_in tasks_of_milestone data"

definition current_subtasks :: "document \<Rightarrow> nat" where
  "current_subtasks data = count_in subtasks_of_milestone data"

text \<open>The parts of a search result: where it points, and its \<^verbatim>\<open>type\<close> tag.\<close>

fun found_project :: "found \<Rightarrow> nat" where
  "found_project (FoundMilestone pi mi) = pi"
| "found_project (FoundTask pi mi ti) = pi"
| "found_project (FoundSubtask pi mi ti si) = pi"

fun found_milestone :: "found \<Rightarrow> nat" where
  "found_milestone (FoundMilestone pi mi) = mi"
| "found_milestone (FoundTask pi mi ti) = mi"
| "found_milestone (FoundSubtask pi mi ti si) = mi"

fun found_type :: "found \<Rightarrow> string" where
  "found_type (FoundMilestone pi mi) = ''milestone''"
| "found_type (FoundTask pi mi ti) = ''task''"
| "found_type (FoundSubtask pi mi ti si) = ''subtask''"

text \<open>
  The \<^verbatim>\<open>current\<close> flag of the found node and of the milestone above it (for a
  milestone, itself), read from a document; the outer \<open>None\<close> is a position that does
  not exist.
\<close>

definition item_current :: "document \<Rightarrow> found \<Rightarrow> bool option option" where
  "item_current data f =
     (case f of
        FoundMilestone pi mi \<Rightarrow> map_option m_current (milestone_at data pi mi)
      | FoundTask pi mi ti \<Rightarrow> map_option t_current (task_at data pi mi ti)
      | FoundSubtask pi mi ti si \<Rightarrow> map_option s_current (subtask_at data pi mi ti si))"

definition owner_current :: "document \<Rightarrow> found \<Rightarrow> bool option option" where
  "owner_current data f = map_option m_current (milestone_at data (found_project f) (found_milestone f))"

text \<open>
  Whether a project other than the one of the found node has a milestone with a task
  or subtask of the given id.
\<close>

definition other_projects :: "found \<Rightarrow> document \<Rightarrow> project list" where
  "other_projects f data =
     take (found_project f) (projects data) @ drop (Suc (found_project f)) (projects data)"

definition id_elsewhere :: "string \<Rightarrow> found \<Rightarrow> document \<Rightarrow> bool" where
  "id_elsewhere taskId f data =
     list_ex (\<lambda>p. list_ex (hasTask taskId) (p_milestones p)) (other_projects f data)"

text \<open>The number of such projects.\<close>

definition shared_elsewhere :: "string \<Rightarrow> found \<Rightarrow> document \<Rightarrow> nat" where
  "shared_elsewhere taskId f data =
     length (filter (\<lambda>p. list_ex (hasTask taskId) (p_milestones p)) (other_projects f data))"

subsection \<open>A stored document\<close>

text \<open>
  Two projects in the shape of the repository's \<^verbatim>\<open>data.json\<close>: the first has a
  milestone whose task \<^verbatim>\<open>l-t9\<close> carries three subtasks, the second a milestone
  without tasks and one whose task has no subtasks.
\<close>

definition sub :: "string \<Rightarrow> bool \<Rightarrow> bool option \<Rightarrow> subtask" where
  "sub i d c = \<lparr>s_id = i, s_name = i, s_done = d, s_current = c, s_completedAt = None\<rparr>"

definition tsk :: "string \<Rightarrow> bool option \<Rightarrow> subtask list option \<Rightarrow> task" where
  "tsk i c ss = \<lparr>t_id = i, t_name = i, t_done = False, t_current = c, t_completedAt = None, t_subtasks = ss\<rparr>"

definition mst :: "string \<Rightarrow> bool option \<Rightarrow> task list option \<Rightarrow> milestone" where
  "mst i c ts = \<lparr>m_id = i, m_name = i, m_done = False, m_current = c, m_completedAt = None, m_tasks = ts\<rparr>"

definition store_example :: document where
  "store_example =
     \<lparr>meta = \<lparr>lastUpdated = ''2026-01-01T00:00:00.000Z'', lastScanType = ''manual''\<rparr>,
      projects =
        [\<lparr>p_id = ''loomiverse'', p_name = ''Loomiverse'',
          p_milestones =
            [mst ''l-m1'' (Some True)
               (Some [tsk ''l-t8'' None None,
                      tsk ''l-t9'' (Some True)
                        (Some [sub ''l-s4'' False (Some True), sub ''l-s5'' False None,
                               sub ''l-s6'' False None])])]\<rparr>,
         \<lparr>p_id = ''quiplee'', p_name = ''Quiplee'',
          p_milestones =
            [mst ''q-m1'' None None,
             mst ''q-m2'' (Some True) (Some [tsk ''q-t1'' (Some True) None])]\<rparr>]\<rparr>"

text \<open>
  Two repositories whose names differ only in punctuation: the aggregator builds task
  ids from the lowercased repository name with every run of other characters replaced
  by \<^verbatim>\<open>-\<close>, so \<^verbatim>\<open>my_app\<close> and \<^verbatim>\<open>my.app\<close> both get the task id
  \<^verbatim>\<open>my-app-m0-t0\<close>.
\<close>

definition store_shared_id :: document where
  "store_shared_id =
     \<lparr>meta = \<lparr>lastUpdated = ''2026-01-01T00:00:00.000Z'', lastScanType = ''manual''\<rparr>,
      projects =
        [\<lparr>p_id = ''my_app'', p_name = ''My App'',
          p_milestones = [mst ''my-app-roadmap'' None (Some [tsk ''my-app-m0-t0'' None None])]\<rparr>,
         \<lparr>p_id = ''my.app'', p_name = ''My.app'',
          p_milestones = [mst ''my-app-todo'' None (Some [tsk ''my-app-m0-t0'' None None])]\<rparr>]\<rparr>"

section \<open>JavaScript strings and the regular expressions of the parsers\<close>

text \<open>
  A JavaScript string is a sequence of UTF-16 code units, and the regular expressions
  of the parsers (none has the \<^verbatim>\<open>u\<close> flag) match code unit by code unit. So the
  text the parsers read is a list of code units, each a natural number; \<open>js\<close> turns a
  literal into that form.
\<close>

type_synonym jsstring = "nat list"

definition js :: "string \<Rightarrow> jsstring" where
  "js s = map of_char s"

text \<open>
  The class \<^verbatim>\<open>\s\<close>: the white space and line terminator code points of
  ECMAScript. \<^verbatim>\<open>.\<close> matches everything but a line terminator.
\<close>

definition is_line_terminator :: "nat \<Rightarrow> bool" where
  "is_line_terminator c = (c = 10 \<or> c = 13 \<or> c = 8232 \<or> c = 8233)"

definition is_space :: "nat \<Rightarrow> bool" where
  "is_space c =
     (c = 9 \<or> c = 10 \<or> c = 11 \<or> c = 12 \<or> c = 13 \<or> c = 32 \<or> c = 160 \<or> c = 5760 \<or>
      (8192 \<le> c \<and> c \<le> 8202) \<or> c = 8232 \<or> c = 8233 \<or> c = 8239 \<or> c = 8287 \<or>
      c = 12288 \<or> c = 65279)"

definition dot :: "nat \<Rightarrow> bool" where
  "dot c = (\<not> is_line_terminator c)"

text \<open>\<^verbatim>\<open>String.prototype.trim\<close> removes the same characters at both ends.\<close>

definition trim :: "jsstring \<Rightarrow> jsstring" where
  "trim s = rev (dropWhile is_space (rev (dropWhile is_space s)))"

text \<open>\<^verbatim>\<open>split(sep)\<close> for a one-character separator; the empty string gives one empty piece.\<close>

fun js_split :: "nat \<Rightarrow> jsstring \<Rightarrow> jsstring list" where
  "js_split sep [] = [[]]"
| "js_split sep (c # cs) =
     (if c = sep then [] # js_split sep cs
      else (case js_split sep cs of [] \<Rightarrow> [[c]] | l # ls \<Rightarrow> (c # l) # ls))"

text \<open>
  \<^verbatim>\<open>toLowerCase\<close>. The letters \<^verbatim>\<open>A\<close> to \<^verbatim>\<open>Z\<close> go to \<^verbatim>\<open>a\<close> to \<^verbatim>\<open>z\<close>. Outside
  ASCII only the two characters whose lowercase form contains an ASCII letter are
  mapped (U+0130 to \<^verbatim>\<open>i\<close> followed by U+0307, the Kelvin sign U+212A to \<^verbatim>\<open>k\<close>);
  every other cased character outside ASCII has a lowercase form outside ASCII and is
  left as it is, which makes no difference to the callers below: they delete or
  replace every character outside ASCII that is not white space, and white space has
  no case.
\<close>

definition lower_unit :: "nat \<Rightarrow> jsstring" where
  "lower_unit c =
     (if 65 \<le> c \<and> c \<le> 90 then [c + 32]
      else if c = 304 then [105, 775]
      else if c = 8490 then [107]
      else [c])"

definition toLowerCase :: "jsstring \<Rightarrow> jsstring" where
  "toLowerCase s = concat (map lower_unit s)"

subsection \<open>Matching with backtracking\<close>

text \<open>
  A regular expression is written as the matcher it stands for, in continuation
  style: each piece consumes a prefix of the input and hands the rest to its
  continuation; \<open>None\<close> is failure, and a greedy quantifier that sees its
  continuation fail gives one character back and tries again, as the backtracking
  matcher of ECMAScript does.

  \<open>re_chr\<close> is one character of a class. \<open>re_star\<close> is a greedy \<^verbatim>\<open>*\<close> on a class,
  \<open>re_plus\<close> a greedy \<^verbatim>\<open>+\<close>, \<open>re_upto n\<close> a greedy \<^verbatim>\<open>{0,n}\<close>; each passes the
  characters it took (the capture) and the rest.
\<close>

definition re_chr :: "(nat \<Rightarrow> bool) \<Rightarrow> jsstring \<Rightarrow> (nat \<Rightarrow> jsstring \<Rightarrow> 'a option) \<Rightarrow> 'a option" where
  "re_chr P s k = (case s of [] \<Rightarrow> None | c # cs \<Rightarrow> if P c then k c cs else None)"

fun re_star_from :: "(nat \<Rightarrow> bool) \<Rightarrow> jsstring \<Rightarrow> jsstring \<Rightarrow> (jsstring \<Rightarrow> jsstring \<Rightarrow> 'a option) \<Rightarrow> 'a option" where
  "re_star_from P taken [] k = k taken []"
| "re_star_from P taken (c # cs) k =
     (if P c
      then (case re_star_from P (taken @ [c]) cs k of Some r \<Rightarrow> Some r | None \<Rightarrow> k taken (c # cs))
      else k taken (c # cs))"

definition re_star :: "(nat \<Rightarrow> bool) \<Rightarrow> jsstring \<Rightarrow> (jsstring \<Rightarrow> jsstring \<Rightarrow> 'a option) \<Rightarrow> 'a option" where
  "re_star P s k = re_star_from P [] s k"

definition re_plus :: "(nat \<Rightarrow> bool) \<Rightarrow> jsstring \<Rightarrow> (jsstring \<Rightarrow> jsstring \<Rightarrow> 'a option) \<Rightarrow> 'a option" where
  "re_plus P s k = (case s of [] \<Rightarrow> None | c # cs \<Rightarrow> if P c then re_star_from P [c] cs k else None)"

fun re_upto_from :: "nat \<Rightarrow> (nat \<Rightarrow> bool) \<Rightarrow> jsstring \<Rightarrow> jsstring \<Rightarrow> (jsstring \<Rightarrow> jsstring \<Rightarrow> 'a option) \<Rightarrow> 'a option" where
  "re_upto_from 0 P taken s k = k taken s"
| "re_upto_from (Suc n) P taken [] k = k taken []"
| "re_upto_from (Suc n) P taken (c # cs) k =
     (if P c
      then (case re_upto_from n P (taken @ [c]) cs k of Some r \<Rightarrow> Some r | None \<Rightarrow> k taken (c # cs))
      else k taken (c # cs))"

definition re_upto :: "nat \<Rightarrow> (nat \<Rightarrow> bool) \<Rightarrow> jsstring \<Rightarrow> (jsstring \<Rightarrow> jsstring \<Rightarrow> 'a option) \<Rightarrow> 'a option" where
  "re_upto n P s k = re_upto_from n P [] s k"

text \<open>
  \<^verbatim>\<open>/^#{1,3}\s+(.+)/\<close>: the heading pattern of \<^verbatim>\<open>parseChecklists\<close>; the result is
  the capture.
\<close>

definition headingMatch :: "jsstring \<Rightarrow> jsstring option" where
  "headingMatch line =
     re_chr (\<lambda>c. c = 35) line (\<lambda>_ r1.
     re_upto 2 (\<lambda>c. c = 35) r1 (\<lambda>_ r2.
     re_plus is_space r2 (\<lambda>_ r3.
     re_plus dot r3 (\<lambda>cap _. Some cap))))"

text \<open>
  \<^verbatim>\<open>/^[\s]*[-*]\s*\[([ xX])\]\s*(.+)/\<close>: the checklist pattern; the result is the
  two captures, the mark and the text.
\<close>

definition checkMatch :: "jsstring \<Rightarrow> (nat \<times> jsstring) option" where
  "checkMatch line =
     re_star is_space line (\<lambda>_ r1.
     re_chr (\<lambda>c. c = 45 \<or> c = 42) r1 (\<lambda>_ r2.
     re_star is_space r2 (\<lambda>_ r3.
     re_chr (\<lambda>c. c = 91) r3 (\<lambda>_ r4.
     re_chr (\<lambda>c. c = 32 \<or> c = 120 \<or> c = 88) r4 (\<lambda>mark r5.
     re_chr (\<lambda>c. c = 93) r5 (\<lambda>_ r6.
     re_star is_space r6 (\<lambda>_ r7.
     re_plus dot r7 (\<lambda>cap _. Some (mark, cap)))))))))"

subsection \<open>parseChecklists\<close>

record parsed_task =
  pt_done :: bool
  pt_name :: jsstring
  pt_section :: jsstring

text \<open>\<^verbatim>\<open>fileName.replace(/\.md$/i, '').replace(/[-_]/g, ' ')\<close>\<close>

definition strip_md :: "jsstring \<Rightarrow> jsstring" where
  "strip_md f =
     (let n = length f in
      if 3 \<le> n \<and> f ! (n - 3) = 46 \<and> (f ! (n - 2) = 109 \<or> f ! (n - 2) = 77) \<and>
         (f ! (n - 1) = 100 \<or> f ! (n - 1) = 68)
      then take (n - 3) f else f)"

definition defaultHeading :: "jsstring \<Rightarrow> jsstring" where
  "defaultHeading fileName = map (\<lambda>c. if c = 45 \<or> c = 95 then 32 else c) (strip_md fileName)"

text \<open>The loop over the lines, with \<^verbatim>\<open>currentHeading\<close> as its state.\<close>

fun parse_lines :: "jsstring \<Rightarrow> jsstring list \<Rightarrow> parsed_task list" where
  "parse_lines currentHeading [] = []"
| "parse_lines currentHeading (line # lines) =
     (let currentHeading' =
            (case headingMatch line of Some cap \<Rightarrow> trim cap | None \<Rightarrow> currentHeading)
      in (case checkMatch line of
            Some (mark, cap) \<Rightarrow>
              \<lparr>pt_done = (toLowerCase [mark] = [120]), pt_name = trim cap,
                pt_section = currentHeading'\<rparr> # parse_lines currentHeading' lines
          | None \<Rightarrow> parse_lines currentHeading' lines))"

definition parseChecklists :: "jsstring \<Rightarrow> jsstring \<Rightarrow> parsed_task list" where
  "parseChecklists content fileName = parse_lines (defaultHeading fileName) (js_split 10 content)"

text \<open>The lines for which the loop pushes a record: those the checklist pattern matches.\<close>

definition task_line :: "jsstring \<Rightarrow> bool" where
  "task_line line = (case checkMatch line of None \<Rightarrow> False | Some found \<Rightarrow> True)"

subsection \<open>parsePRD\<close>

text \<open>
  The migration script's parser. Its heading pattern is \<^verbatim>\<open>/^(#{2,3})\s+(.+)/\<close>
  (a level-1 title is skipped on purpose), it keeps the level, and besides the bullet
  form it reads table rows with
  \<^verbatim>\<open>/^\|[^|]*\|([^|]+)\|[^|]*\|\s*\[([ xX])\]\s*\|/\<close>.
\<close>

record prd_task =
  prd_done :: bool
  prd_text :: jsstring

record prd_section =
  sec_heading :: jsstring
  sec_level :: nat
  sec_tasks :: "prd_task list"
  sec_source :: jsstring

definition headingMatch23 :: "jsstring \<Rightarrow> (nat \<times> jsstring) option" where
  "headingMatch23 line =
     re_chr (\<lambda>c. c = 35) line (\<lambda>_ r1.
     re_chr (\<lambda>c. c = 35) r1 (\<lambda>_ r2.
     re_upto 1 (\<lambda>c. c = 35) r2 (\<lambda>more r3.
     re_plus is_space r3 (\<lambda>_ r4.
     re_plus dot r4 (\<lambda>cap _. Some (2 + length more, cap))))))"

definition tableMatch :: "jsstring \<Rightarrow> (jsstring \<times> nat) option" where
  "tableMatch line =
     re_chr (\<lambda>c. c = 124) line (\<lambda>_ r1.
     re_star (\<lambda>c. c \<noteq> 124) r1 (\<lambda>_ r2.
     re_chr (\<lambda>c. c = 124) r2 (\<lambda>_ r3.
     re_plus (\<lambda>c. c \<noteq> 124) r3 (\<lambda>cell r4.
     re_chr (\<lambda>c. c = 124) r4 (\<lambda>_ r5.
     re_star (\<lambda>c. c \<noteq> 124) r5 (\<lambda>_ r6.
     re_chr (\<lambda>c. c = 124) r6 (\<lambda>_ r7.
     re_star is_space r7 (\<lambda>_ r8.
     re_chr (\<lambda>c. c = 91) r8 (\<lambda>_ r9.
     re_chr (\<lambda>c. c = 32 \<or> c = 120 \<or> c = 88) r9 (\<lambda>mark r10.
     re_chr (\<lambda>c. c = 93) r10 (\<lambda>_ r11.
     re_star is_space r11 (\<lambda>_ r12.
     re_chr (\<lambda>c. c = 124) r12 (\<lambda>_ _. Some (cell, mark))))))))))))))"

text \<open>\<^verbatim>\<open>taskText.match(/^[-\s]+$/)\<close>: a divider cell.\<close>

definition divider :: "jsstring \<Rightarrow> bool" where
  "divider t = (t \<noteq> [] \<and> list_all (\<lambda>c. c = 45 \<or> is_space c) t)"

text \<open>
  \<^verbatim>\<open>if (currentSection && currentSection.tasks.length > 0) sections.push(currentSection)\<close>
\<close>

definition flush :: "prd_section list \<Rightarrow> prd_section option \<Rightarrow> prd_section list" where
  "flush sections currentSection =
     (case currentSection of
        None \<Rightarrow> sections
      | Some cur \<Rightarrow> if sec_tasks cur \<noteq> [] then sections @ [cur] else sections)"

text \<open>
  The loop over the lines, with \<^verbatim>\<open>sections\<close> and \<^verbatim>\<open>currentSection\<close> as its
  state. A checklist or table line is kept only under \<^verbatim>\<open>&& currentSection\<close>.
\<close>

fun prd_lines :: "jsstring \<Rightarrow> prd_section list \<Rightarrow> prd_section option \<Rightarrow> jsstring list \<Rightarrow> prd_section list" where
  "prd_lines fileName sections currentSection [] = flush sections currentSection"
| "prd_lines fileName sections currentSection (line # lines) =
     (case headingMatch23 line of
        Some (level, cap) \<Rightarrow>
          prd_lines fileName (flush sections currentSection)
            (Some \<lparr>sec_heading = trim cap, sec_level = level, sec_tasks = [], sec_source = fileName\<rparr>)
            lines
      | None \<Rightarrow>
          (case (checkMatch line, currentSection) of
             (Some (mark, cap), Some cur) \<Rightarrow>
               prd_lines fileName sections
                 (Some (cur\<lparr>sec_tasks := sec_tasks cur @
                    [\<lparr>prd_done = (toLowerCase [mark] = [120]), prd_text = trim cap\<rparr>]\<rparr>))
                 lines
           | _ \<Rightarrow>
               (case (tableMatch line, currentSection) of
                  (Some (cell, mark), Some cur) \<Rightarrow>
                    (let taskText = trim cell in
                     if taskText \<noteq> [] \<and> \<not> divider taskText \<and> toLowerCase taskText \<noteq> js ''task''
                     then prd_lines fileName sections
                            (Some (cur\<lparr>sec_tasks := sec_tasks cur @
                               [\<lparr>prd_done = (toLowerCase [mark] = [120]), prd_text = taskText\<rparr>]\<rparr>))
                            lines
                     else prd_lines fileName sections currentSection lines)
                | _ \<Rightarrow> prd_lines fileName sections currentSection lines)))"

definition parsePRD :: "jsstring \<Rightarrow> jsstring \<Rightarrow> prd_section list" where
  "parsePRD content fileName = prd_lines fileName [] None (js_split 10 content)"

subsection \<open>Checklist lines and headings, in the words of the specification\<close>

text \<open>
  A bullet checklist line: after leading white space a \<^verbatim>\<open>-\<close> or \<^verbatim>\<open>*\<close> bullet,
  then (after optional white space) \<^verbatim>\<open>[ ]\<close>, \<^verbatim>\<open>[x]\<close> or \<^verbatim>\<open>[X]\<close>, then free
  text. \<open>checklist_parts\<close> gives the bracket letter and everything after the
  closing bracket.
\<close>

definition checklist_parts :: "jsstring \<Rightarrow> (nat \<times> jsstring) option" where
  "checklist_parts line =
     (case dropWhile is_space line of
        [] \<Rightarrow> None
      | bullet # r1 \<Rightarrow>
          if bullet = 45 \<or> bullet = 42
          then (case dropWhile is_space r1 of
                  ob # mark # cb # r \<Rightarrow>
                    if ob = 91 \<and> (mark = 32 \<or> mark = 120 \<or> mark = 88) \<and> cb = 93
                    then Some (mark, r) else None
                | _ \<Rightarrow> None)
          else None)"

text \<open>
  The line is well formed when there is free text after the bracket: at least one
  character that is not white space. A blank item is a bullet and a bracket followed
  by white space only, of which at least one character is not a line terminator (a
  blank or a tab left at the end of the line, say).
\<close>

definition well_formed :: "jsstring \<Rightarrow> bool" where
  "well_formed line =
     (case checklist_parts line of
        None \<Rightarrow> False
      | Some (mark, r) \<Rightarrow> list_ex (\<lambda>c. \<not> is_space c) r)"

definition blank_item :: "jsstring \<Rightarrow> bool" where
  "blank_item line =
     (case checklist_parts line of
        None \<Rightarrow> False
      | Some (mark, r) \<Rightarrow> list_all is_space r \<and> list_ex dot r)"

text \<open>
  The free text of a line runs from the first character after the bracket that is not
  white space to the next line terminator, and is trimmed; where the line has no line
  terminator in it this is all that follows the bracket, trimmed.
\<close>

definition bracket_checked :: "jsstring \<Rightarrow> bool" where
  "bracket_checked line =
     (case checklist_parts line of None \<Rightarrow> False | Some (mark, r) \<Rightarrow> mark = 120 \<or> mark = 88)"

definition free_text :: "jsstring \<Rightarrow> jsstring" where
  "free_text line =
     (case checklist_parts line of
        None \<Rightarrow> []
      | Some (mark, r) \<Rightarrow> trim (takeWhile dot (dropWhile is_space r)))"

text \<open>
  A heading line of one to three levels: one to three \<^verbatim>\<open>#\<close>, white space, text.
  \<open>heading_text\<close> is its trimmed text.
\<close>

definition heading_text :: "jsstring \<Rightarrow> jsstring option" where
  "heading_text line =
     (let hashes = takeWhile (\<lambda>c. c = 35) line; r = dropWhile (\<lambda>c. c = 35) line in
      if 1 \<le> length hashes \<and> length hashes \<le> 3 \<and> r \<noteq> [] \<and> is_space (hd r) \<and> list_ex dot (tl r)
      then Some (trim (takeWhile dot (dropWhile is_space r))) else None)"

text \<open>
  The section context after some lines: the text of the last heading line among them,
  and the default label when there is none. The section of line \<open>i\<close> is the
  context after the lines up to and including it.
\<close>

definition current_heading :: "jsstring \<Rightarrow> jsstring list \<Rightarrow> jsstring" where
  "current_heading dflt seen =
     (case List.map_filter heading_text (rev seen) of [] \<Rightarrow> dflt | h # _ \<Rightarrow> h)"

definition section_at :: "jsstring \<Rightarrow> jsstring list \<Rightarrow> nat \<Rightarrow> jsstring" where
  "section_at dflt lines i = current_heading dflt (take (Suc i) lines)"

text \<open>
  A heading line of two or three levels: two or three \<^verbatim>\<open>#\<close>, white space, text.
  \<open>heading23\<close> gives its level and its trimmed text.
\<close>

definition heading23 :: "jsstring \<Rightarrow> (nat \<times> jsstring) option" where
  "heading23 line =
     (let hashes = takeWhile (\<lambda>c. c = 35) line; r = dropWhile (\<lambda>c. c = 35) line in
      if 2 \<le> length hashes \<and> length hashes \<le> 3 \<and> r \<noteq> [] \<and> is_space (hd r) \<and> list_ex dot (tl r)
      then Some (length hashes, trim (takeWhile dot (dropWhile is_space r))) else None)"

text \<open>
  The task a line of \<^verbatim>\<open>parsePRD\<close> adds to the section that is open: the task of a
  bullet line (well formed, or a blank item), or else of a table row (matched by the
  table pattern) whose cell is not empty, not a divider and not the header
  \<^verbatim>\<open>Task\<close>.
\<close>

definition line_task :: "jsstring \<Rightarrow> prd_task option" where
  "line_task line =
     (if well_formed line \<or> blank_item line
      then Some \<lparr>prd_done = bracket_checked line, prd_text = free_text line\<rparr>
      else
          (case tableMatch line of
             Some (cell, mark) \<Rightarrow>
               if trim cell \<noteq> [] \<and> \<not> divider (trim cell) \<and> toLowerCase (trim cell) \<noteq> js ''task''
               then Some \<lparr>prd_done = (toLowerCase [mark] = [120]), prd_text = trim cell\<rparr>
               else None
           | None \<Rightarrow> None))"

text \<open>
  The sections of a document, read off its lines. The lines before the first heading
  of two or three levels belong to no section and are dropped. Each such heading opens
  a section, which holds the tasks of the lines up to the next such heading; a section
  without tasks is left out.
\<close>

function sections_from :: "jsstring \<Rightarrow> jsstring list \<Rightarrow> prd_section list" where
  "sections_from fileName [] = []"
| "sections_from fileName (line # lines) =
     (case heading23 line of
        None \<Rightarrow> sections_from fileName lines
      | Some (level, heading) \<Rightarrow>
          (let tasks = List.map_filter line_task (takeWhile (\<lambda>l. heading23 l = None) lines)
           in (if tasks = [] then []
               else [\<lparr>sec_heading = heading, sec_level = level, sec_tasks = tasks,
                      sec_source = fileName\<rparr>]) @
              sections_from fileName (dropWhile (\<lambda>l. heading23 l = None) lines)))"
  by pat_completeness auto

termination
  by (relation "measure (\<lambda>(fileName, lines). length lines)")
    (auto simp add: le_imp_less_Suc length_dropWhile_le)

text \<open>A document given line by line: the lines joined with \<^verbatim>\<open>\n\<close>.\<close>

fun text_of :: "string list \<Rightarrow> jsstring" where
  "text_of [] = []"
| "text_of [l] = js l"
| "text_of (l # ls) = js l @ 10 # text_of ls"

subsection \<open>Two markdown documents\<close>

definition roadmap_md :: jsstring where
  "roadmap_md = text_of
     [''- [ ] Kickoff'', ''# Road map'', ''## Phase 1'', ''- [x] A'', ''* [ ]   B  '',
      ''junk - [ ] no'', ''#### too deep'', ''  - [X]C'', ''- [ ]'', ''### Phase 2'', ''-[x] D'']"

definition plain_md :: jsstring where
  "plain_md = text_of [''# Title'', ''- [ ] ship it'']"

section \<open>The section merger of the migration script\<close>

subsection \<open>slugify\<close>

text \<open>
  \<^verbatim>\<open>text.toLowerCase().replace(/[^a-z0-9\s-]/g, '').replace(/\s+/g, '-')\<close>
  \<^verbatim>\<open>.replace(/-+/g, '-').replace(/^-|-$/g, '').slice(0, 50)\<close>
\<close>

definition slug_char :: "nat \<Rightarrow> bool" where
  "slug_char c = ((97 \<le> c \<and> c \<le> 122) \<or> (48 \<le> c \<and> c \<le> 57) \<or> is_space c \<or> c = 45)"

text \<open>
  \<^verbatim>\<open>replace(/P+/g, r)\<close> for a character class \<open>P\<close>: every maximal run of the
  class becomes one \<open>r\<close>. The flag says whether the character before was of the class.
\<close>

fun squeeze :: "(nat \<Rightarrow> bool) \<Rightarrow> nat \<Rightarrow> bool \<Rightarrow> jsstring \<Rightarrow> jsstring" where
  "squeeze P r in_run [] = []"
| "squeeze P r in_run (c # cs) =
     (if P c then (if in_run then squeeze P r True cs else r # squeeze P r True cs)
      else c # squeeze P r False cs)"

definition replace_runs :: "(nat \<Rightarrow> bool) \<Rightarrow> nat \<Rightarrow> jsstring \<Rightarrow> jsstring" where
  "replace_runs P r s = squeeze P r False s"

text \<open>
  \<^verbatim>\<open>replace(/^-|-$/g, '')\<close>: a \<^verbatim>\<open>-\<close> at the start is removed, and a \<^verbatim>\<open>-\<close> at the
  end of what is left.
\<close>

definition strip_edges :: "jsstring \<Rightarrow> jsstring" where
  "strip_edges s =
     (let s1 = (case s of [] \<Rightarrow> [] | c # cs \<Rightarrow> if c = 45 then cs else s)
      in if s1 \<noteq> [] \<and> last s1 = 45 then butlast s1 else s1)"

definition slugify :: "jsstring \<Rightarrow> jsstring" where
  "slugify t =
     take 50 (strip_edges (replace_runs (\<lambda>c. c = 45) 45 (replace_runs is_space 45
       (filter slug_char (toLowerCase t)))))"

subsection \<open>Step 3 of migrateRepo: sections with the same slug are merged\<close>

text \<open>
  \<^verbatim>\<open>merged\<close> is a \<^verbatim>\<open>Map\<close>, read back in insertion order by
  \<^verbatim>\<open>Array.from(merged.values())\<close>: an association list in insertion order.
  For a key already there the entry is updated in place: the tasks of the new section
  whose text is not in \<^verbatim>\<open>existingTexts\<close> (the texts of the entry's tasks before
  this section is added) are pushed, and the source is extended. For a new key a copy
  of the section is added at the end.
\<close>

fun merge_into :: "jsstring \<Rightarrow> prd_section \<Rightarrow> (jsstring \<times> prd_section) list \<Rightarrow> (jsstring \<times> prd_section) list" where
  "merge_into key sec [] = [(key, sec)]"
| "merge_into key sec ((k, existing) # rest) =
     (if k = key
      then (k, existing
              \<lparr>sec_tasks := sec_tasks existing @
                 filter (\<lambda>t. prd_text t \<notin> set (map prd_text (sec_tasks existing))) (sec_tasks sec),
               sec_source := sec_source existing @ js '', '' @ sec_source sec\<rparr>) # rest
      else (k, existing) # merge_into key sec rest)"

definition merge_sections :: "prd_section list \<Rightarrow> prd_section list" where
  "merge_sections allSections =
     map snd (foldl (\<lambda>merged sec. merge_into (slugify (sec_heading sec)) sec merged) [] allSections)"

subsection \<open>The duplicate-free union, in the words of the specification\<close>

text \<open>
  The tasks in first-seen order with exact-text duplicates removed: a task is kept
  unless a task with the same text was seen before it.
\<close>

fun first_seen_from :: "jsstring list \<Rightarrow> prd_task list \<Rightarrow> prd_task list" where
  "first_seen_from seen [] = []"
| "first_seen_from seen (t # ts) =
     (if prd_text t \<in> set seen then first_seen_from seen ts
      else t # first_seen_from (prd_text t # seen) ts)"

definition first_seen :: "prd_task list \<Rightarrow> prd_task list" where
  "first_seen ts = first_seen_from [] ts"

subsection \<open>Sections of two documents\<close>

definition ptask :: "bool \<Rightarrow> string \<Rightarrow> prd_task" where
  "ptask d t = \<lparr>prd_done = d, prd_text = js t\<rparr>"

definition psection :: "string \<Rightarrow> prd_task list \<Rightarrow> string \<Rightarrow> prd_section" where
  "psection h ts src = \<lparr>sec_heading = js h, sec_level = 2, sec_tasks = ts, sec_source = js src\<rparr>"

text \<open>
  Two documents of one repository: \<^verbatim>\<open>PRD.md\<close> with the sections
  \<^verbatim>\<open>Setup & Install\<close> and \<^verbatim>\<open>Usage\<close>, and \<^verbatim>\<open>docs/ROADMAP.md\<close> with the
  section \<^verbatim>\<open>setup   install!\<close>, which has the slug of the first.
\<close>

definition prd_sections :: "prd_section list" where
  "prd_sections =
     [psection ''Setup & Install''
        [ptask True ''Clone the repo'', ptask False ''Run the installer''] ''PRD.md'',
      psection ''Usage'' [ptask False ''Write the guide''] ''PRD.md'',
      psection ''setup   install!''
        [ptask True ''Run the installer'', ptask False ''Add a lockfile''] ''docs/ROADMAP.md'']"

text \<open>
  Two documents with a section \<^verbatim>\<open>Setup\<close> each; the second lists one text twice.
\<close>

definition repeated_sections :: "prd_section list" where
  "repeated_sections =
     [psection ''Setup'' [ptask False ''Clone the repo''] ''PRD.md'',
      psection ''Setup'' [ptask False ''Add a lockfile'', ptask True ''Add a lockfile'']
        ''docs/ROADMAP.md'']"

section \<open>The aggregator with discovery\<close>

subsection \<open>What GitHub answers\<close>

text \<open>
  Every request goes through \<^verbatim>\<open>ghFetch\<close>. A request is answered by a response
  that is not \<^verbatim>\<open>ok\<close>, or by JSON, or \<^verbatim>\<open>fetch\<close> rejects; then \<^verbatim>\<open>ghFetch\<close>
  throws. The JSON has the fields of the GitHub API that the code reads. The field
  \<^verbatim>\<open>pushed_at\<close> is given by what \<^verbatim>\<open>new Date\<close> makes of it: it is missing (or
  empty), or it does not parse, or it is a time in milliseconds.
\<close>

datatype 'a answer = Rejected | NotOk | Json 'a

datatype failure = FetchFailed | TypeError

datatype pushed = NoPush | Unparsed | PushedAt int

record repo_json =
  rj_name :: jsstring
  rj_full_name :: jsstring
  rj_archived :: bool
  rj_description :: "jsstring option"
  rj_pushed_at :: pushed
  rj_default_branch :: jsstring

record commit_json =
  cj_message :: jsstring
  cj_date :: jsstring
  cj_sha :: jsstring

record gh_source =
  src_type :: jsstring
  src_name :: jsstring

text \<open>
  \<open>token\<close>: \<^verbatim>\<open>process.env.GITHUB_TOKEN\<close> is set. The other fields are the answers
  to the four requests: the repositories of a source, the tree of a repository (the
  paths of \<^verbatim>\<open>data.tree\<close>, \<open>None\<close> when the JSON has no \<^verbatim>\<open>tree\<close>), the content
  of a file (decoded, \<open>None\<close> when the JSON has no \<^verbatim>\<open>content\<close> or an empty
  one), and the recent commits of a repository.
\<close>

record github =
  token :: bool
  repos_answer :: "gh_source \<Rightarrow> repo_json list answer"
  tree_answer :: "jsstring \<Rightarrow> jsstring \<Rightarrow> jsstring list option answer"
  content_answer :: "jsstring \<Rightarrow> jsstring \<Rightarrow> jsstring \<Rightarrow> jsstring option answer"
  commits_answer :: "jsstring \<Rightarrow> jsstring \<Rightarrow> commit_json list answer"

definition ghFetch :: "github \<Rightarrow> 'a answer \<Rightarrow> failure + 'a option" where
  "ghFetch gh a =
     (if \<not> token gh then Inr None
      else (case a of
              Rejected \<Rightarrow> Inl FetchFailed
            | NotOk \<Rightarrow> Inr None
            | Json v \<Rightarrow> Inr (Some v)))"

subsection \<open>Constants\<close>

definition GITHUB_SOURCES :: "gh_source list" where
  "GITHUB_SOURCES =
     [\<lparr>src_type = js ''user'', src_name = js ''nolimitjonesinc''\<rparr>,
      \<lparr>src_type = js ''org'', src_name = js ''Nolimit-Labs-Projects''\<rparr>]"

definition SKIP_REPOS :: "jsstring list" where
  "SKIP_REPOS =
     [js ''nolimitjonesinc'', js ''mockingbird-test'',
      js ''simple-hello-world-web-page-single-page-that-say'',
      js ''Twitter-Bot'', js ''Tagaroo'']"

definition COLORS :: "jsstring list" where
  "COLORS =
     [js ''#8b5cf6'', js ''#3b82f6'', js ''#ef4444'', js ''#f59e0b'', js ''#06b6d4'',
      js ''#22c55e'', js ''#f97316'', js ''#ec4899'', js ''#a855f7'', js ''#14b8a6'',
      js ''#e11d48'', js ''#6366f1'', js ''#84cc16'', js ''#f43f5e'', js ''#0ea5e9'',
      js ''#d946ef'', js ''#fb923c'', js ''#4ade80'', js ''#38bdf8'', js ''#c084fc'']"

text \<open>
  \<^verbatim>\<open>/(?:prd|roadmap|todo|checklist|tasks).*\.md$/i\<close>, tested anywhere in the path:
  at some position one of the words stands, and what follows it is characters other
  than line terminators and then \<^verbatim>\<open>.md\<close> at the very end. Without the \<^verbatim>\<open>u\<close>
  flag the \<^verbatim>\<open>i\<close> flag makes a letter of the pattern match its two ASCII forms only.
\<close>

definition ascii_lower :: "nat \<Rightarrow> nat" where
  "ascii_lower c = (if 65 \<le> c \<and> c \<le> 90 then c + 32 else c)"

definition PRD_WORDS :: "jsstring list" where
  "PRD_WORDS = [js ''prd'', js ''roadmap'', js ''todo'', js ''checklist'', js ''tasks'']"

definition md_tail :: "jsstring \<Rightarrow> bool" where
  "md_tail s =
     (3 \<le> length s \<and> map ascii_lower (drop (length s - 3) s) = js ''.md'' \<and>
      list_all dot (take (length s - 3) s))"

definition PRD_FILE_PATTERN :: "jsstring \<Rightarrow> bool" where
  "PRD_FILE_PATTERN f =
     list_ex (\<lambda>i. list_ex (\<lambda>w. map ascii_lower (take (length w) (drop i f)) = w \<and>
                               md_tail (drop (i + length w) f)) PRD_WORDS)
       [0..<Suc (length f)]"

subsection \<open>getColor and displayName\<close>

text \<open>
  \<^verbatim>\<open>hash = ((hash << 5) - hash) + name.charCodeAt(i); hash |= 0\<close>: arithmetic on
  32-bit integers that wraps. \<^verbatim>\<open>Math.abs\<close> is taken of the signed value.
\<close>

fun hash_from :: "32 word \<Rightarrow> jsstring \<Rightarrow> 32 word" where
  "hash_from hash [] = hash"
| "hash_from hash (c # cs) = hash_from ((push_bit 5 hash - hash) + of_nat c) cs"

definition getColor :: "jsstring \<Rightarrow> jsstring" where
  "getColor name = COLORS ! nat (\<bar>sint (hash_from 0 name)\<bar> mod int (length COLORS))"

text \<open>
  \<^verbatim>\<open>repoName.replace(/[-_]+/g, ' ').replace(/\b\w/g, c => c.toUpperCase())\<close>: a word
  character that does not follow a word character is put in upper case.
\<close>

definition is_word :: "nat \<Rightarrow> bool" where
  "is_word c = ((97 \<le> c \<and> c \<le> 122) \<or> (65 \<le> c \<and> c \<le> 90) \<or> (48 \<le> c \<and> c \<le> 57) \<or> c = 95)"

definition upper_unit :: "nat \<Rightarrow> nat" where
  "upper_unit c = (if 97 \<le> c \<and> c \<le> 122 then c - 32 else c)"

fun capitalize :: "bool \<Rightarrow> jsstring \<Rightarrow> jsstring" where
  "capitalize after_word [] = []"
| "capitalize after_word (c # cs) =
     (if is_word c \<and> \<not> after_word then upper_unit c else c) # capitalize (is_word c) cs"

definition displayName :: "jsstring \<Rightarrow> jsstring" where
  "displayName repoName = capitalize False (replace_runs (\<lambda>c. c = 45 \<or> c = 95) 32 repoName)"

subsection \<open>getAllRepos\<close>

text \<open>
  The names of repositories and of their owners are GitHub names: ASCII letters,
  digits, \<^verbatim>\<open>.\<close>, \<^verbatim>\<open>-\<close> and \<^verbatim>\<open>_\<close>. On these \<open>toLowerCase\<close> above is the
  function of JavaScript.
\<close>

record repo =
  r_name :: jsstring
  r_fullName :: jsstring
  r_owner :: jsstring
  r_description :: jsstring
  r_pushedAt :: pushed
  r_defaultBranch :: jsstring
  r_isOrg :: bool

definition repos_of_source :: "gh_source \<Rightarrow> repo_json list \<Rightarrow> repo list" where
  "repos_of_source source repos =
     map (\<lambda>repo. \<lparr>r_name = rj_name repo, r_fullName = rj_full_name repo,
                   r_owner = src_name source,
                   r_description = (case rj_description repo of None \<Rightarrow> [] | Some d \<Rightarrow> d),
                   r_pushedAt = rj_pushed_at repo,
                   r_defaultBranch = rj_default_branch repo,
                   r_isOrg = (src_type source = js ''org'')\<rparr>)
       (filter (\<lambda>repo. \<not> rj_archived repo \<and> rj_name repo \<notin> set SKIP_REPOS) repos)"

fun collect_repos :: "github \<Rightarrow> repo list \<Rightarrow> gh_source list \<Rightarrow> failure + repo list" where
  "collect_repos gh allRepos [] = Inr allRepos"
| "collect_repos gh allRepos (source # sources) =
     (case ghFetch gh (repos_answer gh source) of
        Inl e \<Rightarrow> Inl e
      | Inr None \<Rightarrow> collect_repos gh allRepos sources
      | Inr (Some repos) \<Rightarrow> collect_repos gh (allRepos @ repos_of_source source repos) sources)"

text \<open>The filter with the set \<^verbatim>\<open>seen\<close>: the first repository of a name is kept.\<close>

fun dedupe :: "jsstring list \<Rightarrow> repo list \<Rightarrow> repo list" where
  "dedupe seen [] = []"
| "dedupe seen (r # rs) =
     (if toLowerCase (r_name r) \<in> set seen then dedupe seen rs
      else r # dedupe (toLowerCase (r_name r) # seen) rs)"

definition getAllRepos :: "github \<Rightarrow> failure + repo list" where
  "getAllRepos gh =
     (case collect_repos gh [] GITHUB_SOURCES of
        Inl e \<Rightarrow> Inl e
      | Inr allRepos \<Rightarrow> Inr (dedupe [] allRepos))"

subsection \<open>The requests of one repository\<close>

definition getFileTree :: "github \<Rightarrow> jsstring \<Rightarrow> jsstring \<Rightarrow> failure + jsstring list" where
  "getFileTree gh owner repoName =
     (case ghFetch gh (tree_answer gh owner repoName) of
        Inl e \<Rightarrow> Inl e
      | Inr None \<Rightarrow> Inr []
      | Inr (Some None) \<Rightarrow> Inr []
      | Inr (Some (Some tree)) \<Rightarrow> Inr tree)"

definition getFileContent :: "github \<Rightarrow> jsstring \<Rightarrow> jsstring \<Rightarrow> jsstring \<Rightarrow> failure + jsstring option" where
  "getFileContent gh owner repoName filePath =
     (case ghFetch gh (content_answer gh owner repoName filePath) of
        Inl e \<Rightarrow> Inl e
      | Inr None \<Rightarrow> Inr None
      | Inr (Some None) \<Rightarrow> Inr None
      | Inr (Some (Some content)) \<Rightarrow> Inr (Some content))"

definition getRecentCommits :: "github \<Rightarrow> jsstring \<Rightarrow> jsstring \<Rightarrow> failure + commit_json list option" where
  "getRecentCommits gh owner repoName = ghFetch gh (commits_answer gh owner repoName)"

text \<open>\<^verbatim>\<open>Promise.all\<close>: all the values in order, or a rejection.\<close>

fun all_results :: "(failure + 'a) list \<Rightarrow> failure + 'a list" where
  "all_results [] = Inr []"
| "all_results (r # rs) =
     (case r of
        Inl e \<Rightarrow> Inl e
      | Inr v \<Rightarrow> (case all_results rs of Inl e \<Rightarrow> Inl e | Inr vs \<Rightarrow> Inr (v # vs)))"

definition prd_result :: "github \<Rightarrow> jsstring \<Rightarrow> jsstring \<Rightarrow> jsstring \<Rightarrow> failure + jsstring \<times> parsed_task list" where
  "prd_result gh owner repoName file =
     (case getFileContent gh owner repoName file of
        Inl e \<Rightarrow> Inl e
      | Inr None \<Rightarrow> Inr (file, [])
      | Inr (Some content) \<Rightarrow>
          if content = [] then Inr (file, []) else Inr (file, parseChecklists content file))"

subsection \<open>Milestones from the checklists\<close>

text \<open>
  \<^verbatim>\<open>sections\<close> is an object used as a dictionary. A section named like a property
  of \<^verbatim>\<open>Object.prototype\<close> finds that property, which is not an array: \<^verbatim>\<open>push\<close>
  throws. \<^verbatim>\<open>Object.entries\<close> gives the keys that are array indices first, in
  ascending order, and then the other keys in the order they were created.
\<close>

definition prototype_keys :: "jsstring list" where
  "prototype_keys =
     [js ''constructor'', js ''__proto__'', js ''hasOwnProperty'', js ''isPrototypeOf'',
      js ''propertyIsEnumerable'', js ''toLocaleString'', js ''toString'', js ''valueOf'',
      js ''__defineGetter__'', js ''__defineSetter__'', js ''__lookupGetter__'',
      js ''__lookupSetter__'']"

fun add_to_section :: "jsstring \<Rightarrow> parsed_task \<Rightarrow> (jsstring \<times> parsed_task list) list \<Rightarrow> (jsstring \<times> parsed_task list) list" where
  "add_to_section section task [] = [(section, [task])]"
| "add_to_section section task ((k, ts) # rest) =
     (if k = section then (k, ts @ [task]) # rest
      else (k, ts) # add_to_section section task rest)"

fun group_sections :: "jsstring \<Rightarrow> (jsstring \<times> parsed_task list) list \<Rightarrow> parsed_task list \<Rightarrow> failure + (jsstring \<times> parsed_task list) list" where
  "group_sections file sections [] = Inr sections"
| "group_sections file sections (task # tasks) =
     (let section = (if pt_section task = [] then file else pt_section task)
      in if section \<in> set prototype_keys then Inl TypeError
         else group_sections file (add_to_section section task sections) tasks)"

definition index_value :: "jsstring \<Rightarrow> int" where
  "index_value s = foldl (\<lambda>n c. 10 * n + (int c - 48)) 0 s"

definition is_array_index :: "jsstring \<Rightarrow> bool" where
  "is_array_index s =
     (s \<noteq> [] \<and> list_all (\<lambda>c. 48 \<le> c \<and> c \<le> 57) s \<and> (s = [48] \<or> hd s \<noteq> 48) \<and>
      length s \<le> 10 \<and> index_value s \<le> 4294967294)"

definition object_entries :: "(jsstring \<times> 'a) list \<Rightarrow> (jsstring \<times> 'a) list" where
  "object_entries kvs =
     sort_key (\<lambda>kv. index_value (fst kv)) (filter (\<lambda>kv. is_array_index (fst kv)) kvs) @
     filter (\<lambda>kv. \<not> is_array_index (fst kv)) kvs"

text \<open>A number in a template literal: its decimal digits.\<close>

fun decimal :: "nat \<Rightarrow> jsstring" where
  "decimal n = (if n < 10 then [48 + n] else decimal (n div 10) @ [48 + n mod 10])"

declare decimal.simps [simp del]

text \<open>\<^verbatim>\<open>toLowerCase().replace(/[^a-z0-9]+/g, '-')\<close>\<close>

definition id_of :: "jsstring \<Rightarrow> jsstring" where
  "id_of s =
     replace_runs (\<lambda>c. \<not> ((97 \<le> c \<and> c \<le> 122) \<or> (48 \<le> c \<and> c \<le> 57))) 45 (toLowerCase s)"

record gh_task =
  gt_id :: jsstring
  gt_name :: jsstring
  gt_done :: bool
  gt_current :: "bool option"

record gh_milestone =
  gm_id :: jsstring
  gm_name :: jsstring
  gm_done :: bool
  gm_current :: bool
  gm_source :: "jsstring option"
  gm_tasks :: "gh_task list"

definition section_tasks :: "jsstring \<Rightarrow> nat \<Rightarrow> parsed_task list \<Rightarrow> gh_task list" where
  "section_tasks repoName n sectionTasks =
     map (\<lambda>i. let t = sectionTasks ! i in
            \<lparr>gt_id = id_of (repoName @ js ''-m'' @ decimal n @ js ''-t'' @ decimal i),
             gt_name = pt_name t,
             gt_done = pt_done t,
             gt_current = Some (\<not> pt_done t \<and> list_all pt_done (take i sectionTasks))\<rparr>)
       [0..<length sectionTasks]"

definition section_milestone :: "jsstring \<Rightarrow> jsstring \<Rightarrow> gh_milestone list \<Rightarrow> jsstring \<times> parsed_task list \<Rightarrow> gh_milestone" where
  "section_milestone repoName file milestones entry =
     (let sectionName = fst entry;
          sectionTasks = snd entry;
          doneTasks = length (filter pt_done sectionTasks);
          allDone = (doneTasks = length sectionTasks)
      in \<lparr>gm_id = take 50 (id_of (repoName @ js ''-'' @ sectionName)),
          gm_name = sectionName,
          gm_done = allDone,
          gm_current = (\<not> allDone \<and> list_all gm_done milestones),
          gm_source = Some file,
          gm_tasks = section_tasks repoName (length milestones) sectionTasks\<rparr>)"

fun prd_milestones :: "jsstring \<Rightarrow> gh_milestone list \<Rightarrow> (jsstring \<times> parsed_task list) list \<Rightarrow> failure + gh_milestone list" where
  "prd_milestones repoName milestones [] = Inr milestones"
| "prd_milestones repoName milestones ((file, tasks) # prds) =
     (if tasks = [] then prd_milestones repoName milestones prds
      else (case group_sections file [] tasks of
              Inl e \<Rightarrow> Inl e
            | Inr sections \<Rightarrow>
                prd_milestones repoName
                  (foldl (\<lambda>ms entry. ms @ [section_milestone repoName file ms entry])
                     milestones (object_entries sections))
                  prds))"

text \<open>\<^verbatim>\<open>message.split('\n')[0]\<close>\<close>

definition first_line :: "jsstring \<Rightarrow> jsstring" where
  "first_line s = (case js_split 10 s of [] \<Rightarrow> [] | l # ls \<Rightarrow> l)"

definition activity_milestone :: "jsstring \<Rightarrow> commit_json list \<Rightarrow> gh_milestone" where
  "activity_milestone repoName commits =
     \<lparr>gm_id = toLowerCase (repoName @ js ''-activity''),
      gm_name = js ''Recent Activity'',
      gm_done = False,
      gm_current = True,
      gm_source = None,
      gm_tasks =
        map (\<lambda>i. \<lparr>gt_id = toLowerCase (repoName @ js ''-c'' @ decimal i),
                   gt_name = take 80 (first_line (cj_message (commits ! i))),
                   gt_done = True,
                   gt_current = None\<rparr>)
          [0..<length (take 5 commits)]\<rparr>"

fun mark_first_undone :: "gh_milestone list \<Rightarrow> gh_milestone list" where
  "mark_first_undone [] = []"
| "mark_first_undone (m # ms) =
     (if \<not> gm_done m then m\<lparr>gm_current := True\<rparr> # ms else m # mark_first_undone ms)"

subsection \<open>Days since the last push, and the status\<close>

text \<open>
  A number is \<^verbatim>\<open>NaN\<close> or, here, an integer. \<^verbatim>\<open>Math.floor\<close> of the quotient is the
  integer division, which rounds down. A comparison with \<^verbatim>\<open>NaN\<close> is false.
\<close>

datatype number = NaN | Number int

definition daysSinceUpdate :: "int \<Rightarrow> pushed \<Rightarrow> number option" where
  "daysSinceUpdate now pushedAt =
     (case pushedAt of
        NoPush \<Rightarrow> None
      | Unparsed \<Rightarrow> Some NaN
      | PushedAt t \<Rightarrow> Some (Number ((now - t) div (1000 * 60 * 60 * 24))))"

fun greater :: "number \<Rightarrow> int \<Rightarrow> bool" where
  "greater NaN n = False"
| "greater (Number d) n = (d > n)"

definition status_of :: "number option \<Rightarrow> jsstring" where
  "status_of days =
     (case days of
        None \<Rightarrow> js ''active''
      | Some d \<Rightarrow>
          if greater d 90 then js ''paused''
          else if greater d 30 then js ''idle''
          else js ''active'')"

subsection \<open>buildProjectData\<close>

record last_commit =
  lc_message :: jsstring
  lc_date :: jsstring
  lc_sha :: jsstring

record gh_project =
  gp_id :: jsstring
  gp_name :: jsstring
  gp_description :: jsstring
  gp_status :: jsstring
  gp_priority :: nat
  gp_color :: jsstring
  gp_repo :: jsstring
  gp_owner :: jsstring
  gp_prdFiles :: nat
  gp_lastCommit :: "last_commit option"
  gp_daysSinceUpdate :: "number option"
  gp_totalItems :: nat
  gp_doneItems :: nat
  gp_milestones :: "gh_milestone list"

definition lastCommit :: "commit_json list option \<Rightarrow> last_commit option" where
  "lastCommit commits =
     (case commits of
        None \<Rightarrow> None
      | Some [] \<Rightarrow> None
      | Some (c # cs) \<Rightarrow>
          Some \<lparr>lc_message = first_line (cj_message c), lc_date = cj_date c,
                lc_sha = take 7 (cj_sha c)\<rparr>)"

definition buildProjectData :: "github \<Rightarrow> repo \<Rightarrow> nat \<Rightarrow> int \<Rightarrow> failure + gh_project" where
  "buildProjectData gh repo index now =
     (let repoName = r_name repo;
          owner = r_owner repo;
          prdFiles = (case getFileTree gh owner repoName of
                        Inl e \<Rightarrow> []
                      | Inr tree \<Rightarrow> filter PRD_FILE_PATTERN tree)
      in case all_results (map (prd_result gh owner repoName) prdFiles) of
           Inl e \<Rightarrow> Inl e
         | Inr prdResults \<Rightarrow>
        (case getRecentCommits gh owner repoName of
           Inl e \<Rightarrow> Inl e
         | Inr commits \<Rightarrow>
        (case prd_milestones repoName [] prdResults of
           Inl e \<Rightarrow> Inl e
         | Inr fromPrds \<Rightarrow>
             let withActivity =
                   (case commits of
                      None \<Rightarrow> fromPrds
                    | Some cs \<Rightarrow>
                        if fromPrds = [] \<and> cs \<noteq> []
                        then [activity_milestone repoName cs] else fromPrds);
                 milestones =
                   (if list_ex gm_current withActivity then withActivity
                    else mark_first_undone withActivity);
                 days = daysSinceUpdate now (r_pushedAt repo)
             in Inr \<lparr>gp_id = toLowerCase repoName,
                     gp_name = displayName repoName,
                     gp_description = r_description repo,
                     gp_status = status_of days,
                     gp_priority = index,
                     gp_color = getColor repoName,
                     gp_repo = js ''github.com/'' @ owner @ js ''/'' @ repoName,
                     gp_owner = owner,
                     gp_prdFiles = length prdFiles,
                     gp_lastCommit = lastCommit commits,
                     gp_daysSinceUpdate = days,
                     gp_totalItems = sum_list (map (\<lambda>m. length (gm_tasks m)) milestones),
                     gp_doneItems =
                       sum_list (map (\<lambda>m. length (filter gt_done (gm_tasks m))) milestones),
                     gp_milestones = milestones\<rparr>)))"

subsection \<open>The order of the projects\<close>

text \<open>
  \<^verbatim>\<open>x || d\<close> for a number \<open>x\<close> that may be missing: \<open>d\<close> when \<open>x\<close> is missing,
  \<^verbatim>\<open>NaN\<close> or \<open>0\<close>.
\<close>

definition number_or :: "number option \<Rightarrow> int \<Rightarrow> int" where
  "number_or x d =
     (case x of
        None \<Rightarrow> d
      | Some NaN \<Rightarrow> d
      | Some (Number n) \<Rightarrow> if n = 0 then d else n)"

definition statusOrder :: "jsstring \<Rightarrow> number option" where
  "statusOrder s =
     (if s = js ''active'' then Some (Number 0)
      else if s = js ''idle'' then Some (Number 1)
      else if s = js ''paused'' then Some (Number 2)
      else None)"

definition compare_projects :: "gh_project \<Rightarrow> gh_project \<Rightarrow> int" where
  "compare_projects a b =
     (let statusDiff = number_or (statusOrder (gp_status a)) 2 -
                       number_or (statusOrder (gp_status b)) 2
      in if statusDiff \<noteq> 0 then statusDiff
         else
           let prdDiff = number_or (Some (Number (int (gp_prdFiles b)))) 0 -
                         number_or (Some (Number (int (gp_prdFiles a)))) 0
           in if prdDiff \<noteq> 0 then prdDiff
              else number_or (gp_daysSinceUpdate a) 999 - number_or (gp_daysSinceUpdate b) 999)"

text \<open>
  \<^verbatim>\<open>Array.prototype.sort\<close> is stable. The comparison above compares three numbers
  of each project one after the other, so it is consistent, and then the result of
  \<^verbatim>\<open>sort\<close> is the one a stable insertion sort gives.
\<close>

fun insert_sorted :: "('a \<Rightarrow> 'a \<Rightarrow> int) \<Rightarrow> 'a \<Rightarrow> 'a list \<Rightarrow> 'a list" where
  "insert_sorted cmp x [] = [x]"
| "insert_sorted cmp x (y # ys) =
     (if cmp x y \<le> 0 then x # y # ys else y # insert_sorted cmp x ys)"

fun sort_with :: "('a \<Rightarrow> 'a \<Rightarrow> int) \<Rightarrow> 'a list \<Rightarrow> 'a list" where
  "sort_with cmp [] = []"
| "sort_with cmp (x # xs) = insert_sorted cmp x (sort_with cmp xs)"

subsection \<open>handler\<close>

record gh_meta =
  gmeta_lastUpdated :: jsstring
  gmeta_lastScanType :: jsstring
  gmeta_version :: jsstring
  gmeta_projectCount :: nat
  gmeta_sources :: "jsstring list"

record gh_document =
  gd_meta :: gh_meta
  gd_projects :: "gh_project list"

datatype response = Status200 gh_document | Status500 failure

text \<open>
  The repositories are built in batches of \<^verbatim>\<open>batchSize\<close>; a repository whose
  \<^verbatim>\<open>buildProjectData\<close> rejects is left out. \<^verbatim>\<open>Date.now()\<close> is read once in each
  call of \<^verbatim>\<open>buildProjectData\<close>: \<open>clock i\<close> is what the call for the repository at
  position \<open>i\<close> reads.
\<close>

definition batchSize :: nat where
  "batchSize = 8"

definition build_batch :: "github \<Rightarrow> (nat \<Rightarrow> int) \<Rightarrow> nat \<Rightarrow> repo list \<Rightarrow> gh_project list" where
  "build_batch gh clock i batch =
     List.map_filter
       (\<lambda>j. case buildProjectData gh (batch ! j) (i + j) (clock (i + j)) of
               Inl e \<Rightarrow> None
             | Inr p \<Rightarrow> Some p)
       [0..<length batch]"

function build_batches :: "github \<Rightarrow> (nat \<Rightarrow> int) \<Rightarrow> repo list \<Rightarrow> nat \<Rightarrow> gh_project list" where
  "build_batches gh clock repos i =
     (if i < length repos
      then build_batch gh clock i (take batchSize (drop i repos)) @
           build_batches gh clock repos (i + batchSize)
      else [])"
  by pat_completeness auto

termination
  by (relation "measure (\<lambda>(gh, clock, repos, i). length repos - i)")
    (auto simp add: batchSize_def)

declare build_batches.simps [simp del]

definition handler :: "github \<Rightarrow> (nat \<Rightarrow> int) \<Rightarrow> jsstring \<Rightarrow> response" where
  "handler gh clock stamp =
     (case getAllRepos gh of
        Inl e \<Rightarrow> Status500 e
      | Inr repos \<Rightarrow>
          let projects = sort_with compare_projects (build_batches gh clock repos 0)
          in Status200
               \<lparr>gd_meta = \<lparr>gmeta_lastUpdated = stamp,
                            gmeta_lastScanType = js ''live-api'',
                            gmeta_version = js ''3.0.0'',
                            gmeta_projectCount = length projects,
                            gmeta_sources = map src_name GITHUB_SOURCES\<rparr>,
                gd_projects = projects\<rparr>)"

subsection \<open>What is observed of a response\<close>

definition repos_found :: "github \<Rightarrow> repo list" where
  "repos_found gh = (case getAllRepos gh of Inl e \<Rightarrow> [] | Inr repos \<Rightarrow> repos)"

definition day_counts :: "github \<Rightarrow> (nat \<Rightarrow> int) \<Rightarrow> number option list" where
  "day_counts gh clock =
     map (\<lambda>i. daysSinceUpdate (clock i) (r_pushedAt (repos_found gh ! i)))
       [0..<length (repos_found gh)]"

definition projects_of :: "response \<Rightarrow> gh_project list" where
  "projects_of r = (case r of Status200 d \<Rightarrow> gd_projects d | Status500 e \<Rightarrow> [])"

definition except_lastUpdated :: "response \<Rightarrow> response" where
  "except_lastUpdated r =
     (case r of
        Status200 d \<Rightarrow> Status200 (d\<lparr>gd_meta := (gd_meta d)\<lparr>gmeta_lastUpdated := []\<rparr>\<rparr>)
      | Status500 e \<Rightarrow> Status500 e)"

definition timeless :: "gh_project \<Rightarrow> gh_project" where
  "timeless p = p\<lparr>gp_status := [], gp_daysSinceUpdate := None\<rparr>"

text \<open>
  What does not depend on the clock in a response: the failure, or the meta data
  without \<^verbatim>\<open>lastUpdated\<close> and the projects without their status and their days
  since the last push, in no order.
\<close>

definition clock_free :: "response \<Rightarrow> failure + gh_meta \<times> gh_project multiset" where
  "clock_free r =
     (case r of
        Status500 e \<Rightarrow> Inl e
      | Status200 d \<Rightarrow>
          Inr ((gd_meta d)\<lparr>gmeta_lastUpdated := []\<rparr>, mset (map timeless (gd_projects d))))"

subsection \<open>Two repositories\<close>

definition day :: int where
  "day = 1000 * 60 * 60 * 24"

definition a_repo :: "string \<Rightarrow> pushed \<Rightarrow> repo_json" where
  "a_repo name pushed_at =
     \<lparr>rj_name = js name, rj_full_name = js (''nolimitjonesinc/'' @ name), rj_archived = False,
      rj_description = None, rj_pushed_at = pushed_at, rj_default_branch = js ''main''\<rparr>"

text \<open>
  The user has two repositories, \<^verbatim>\<open>fresh-notes\<close> pushed at day 40 and
  \<^verbatim>\<open>old_engine\<close> pushed at day 0, listed in this order (the most recent push first);
  the request for the organisation fails, and so do those for trees and commits.
\<close>

definition github_example :: github where
  "github_example =
     \<lparr>token = True,
      repos_answer = (\<lambda>source. if src_type source = js ''user''
                                then Json [a_repo ''fresh-notes'' (PushedAt (40 * day)),
                                           a_repo ''old_engine'' (PushedAt 0)]
                                else NotOk),
      tree_answer = (\<lambda>owner repoName. NotOk),
      content_answer = (\<lambda>owner repoName filePath. NotOk),
      commits_answer = (\<lambda>owner repoName. NotOk)\<rparr>"

text \<open>The same with a roadmap in \<^verbatim>\<open>old_engine\<close> and a commit in each.\<close>

definition github_roadmap :: github where
  "github_roadmap =
     github_example
       \<lparr>tree_answer := (\<lambda>owner repoName.
           if repoName = js ''old_engine''
           then Json (Some [js ''README.md'', js ''docs/ROADMAP.md'']) else Json None),
        content_answer := (\<lambda>owner repoName filePath. Json (Some roadmap_md)),
        commits_answer := (\<lambda>owner repoName.
           Json [\<lparr>cj_message = js ''Fix the build'', cj_date = js ''2024-05-01T10:00:00Z'',
                   cj_sha = js ''0123456789abcdef''\<rparr>])\<rparr>"

text \<open>A repository of the user as \<^verbatim>\<open>getAllRepos\<close> lists it.\<close>

definition listed :: "string \<Rightarrow> pushed \<Rightarrow> repo" where
  "listed name pushed_at =
     \<lparr>r_name = js name, r_fullName = js (''nolimitjonesinc/'' @ name),
      r_owner = js ''nolimitjonesinc'', r_description = [], r_pushedAt = pushed_at,
      r_defaultBranch = js ''main'', r_isOrg = False\<rparr>"

text \<open>The project of a repository with no checklist file and no commit.\<close>

definition bare_project :: "repo \<Rightarrow> nat \<Rightarrow> int \<Rightarrow> gh_project" where
  "bare_project repo index now =
     \<lparr>gp_id = toLowerCase (r_name repo),
      gp_name = displayName (r_name repo),
      gp_description = r_description repo,
      gp_status = status_of (daysSinceUpdate now (r_pushedAt repo)),
      gp_priority = index,
      gp_color = getColor (r_name repo),
      gp_repo = js ''github.com/'' @ r_owner repo @ js ''/'' @ r_name repo,
      gp_owner = r_owner repo,
      gp_prdFiles = 0,
      gp_lastCommit = None,
      gp_daysSinceUpdate = daysSinceUpdate now (r_pushedAt repo),
      gp_totalItems = 0,
      gp_doneItems = 0,
      gp_milestones = []\<rparr>"

section \<open>The aggregator with a fixed list of repositories\<close>

text \<open>
  \<^verbatim>\<open>PROJECT_CONFIG\<close>, without the emoji. Every entry gives a status.
\<close>

record project_config =
  pc_name :: jsstring
  pc_description :: jsstring
  pc_color :: jsstring
  pc_priority :: nat
  pc_status :: "jsstring option"
  pc_prdFiles :: "jsstring list"

definition configured :: "string \<Rightarrow> string \<Rightarrow> string \<Rightarrow> nat \<Rightarrow> string \<Rightarrow> string list \<Rightarrow> project_config" where
  "configured name description color priority status prdFiles =
     \<lparr>pc_name = js name, pc_description = js description, pc_color = js color,
      pc_priority = priority, pc_status = Some (js status), pc_prdFiles = map js prdFiles\<rparr>"

definition PROJECT_CONFIG :: "(jsstring \<times> project_config) list" where
  "PROJECT_CONFIG =
     [(js ''Loomiverse-Online'',
       configured ''Loomiverse'' ''AI Interactive Storytelling'' ''#8b5cf6'' 1 ''active''
         [''PRD.md'']),
      (js ''Quiply'',
       configured ''Quiplee'' ''Chrome Extension for Social Replies'' ''#3b82f6'' 2 ''live''
         [''PRD_Quiply_Enhancement.md'', ''PRD_REPLY_BOOSTER_COMPLETION.md'']),
      (js ''mockingbirdnews'',
       configured ''MockingBird News'' ''News Aggregation Platform'' ''#ef4444'' 3 ''active''
         [''MBN create-prd.md'', ''article-summarization-enhancement-prd.md'',
          ''tweet-carousel-prd.md'']),
      (js ''Genesis-Engine'',
       configured ''Genesis Engine'' ''Procedural Character Generator'' ''#f59e0b'' 4 ''active''
         [''ROADMAP.md'']),
      (js ''tweetminer'',
       configured ''TweetMiner'' ''Reply Analysis for Product Ideas'' ''#06b6d4'' 5 ''live''
         [''tweetminer/README.md'']),
      (js ''Gaurdian'',
       configured ''Guardian'' ''Security & Protection System'' ''#22c55e'' 6 ''active''
         [''README.md'']),
      (js ''EmbersInc'',
       configured ''Embers Inc'' ''Embers Inc Project'' ''#f97316'' 7 ''active''
         [''README.md'']),
      (js ''DJ-Brain'',
       configured ''DJ Brain'' ''AI Knowledge System'' ''#ec4899'' 8 ''active'' []),
      (js ''MASTER_MockingBirdApp'',
       configured ''MockingBird App'' ''Main iOS App'' ''#a855f7'' 9 ''paused''
         [''DETAILED_IMPROVEMENT_PRD.md''])]"

text \<open>
  The status in \<^verbatim>\<open>buildProjectData\<close> of this aggregator, where
  \<^verbatim>\<open>daysSinceUpdate\<close> is computed from \<^verbatim>\<open>repoInfo.pushed_at\<close> as above:

  \<^verbatim>\<open>let status = config.status || 'active';\<close>
  \<^verbatim>\<open>if (daysSinceUpdate !== null && daysSinceUpdate > 30 && status === 'active')\<close>
  \<^verbatim>\<open>  status = 'paused';\<close>
\<close>

definition configured_status :: "project_config \<Rightarrow> number option \<Rightarrow> jsstring" where
  "configured_status config days =
     (let status = (case pc_status config of
                      None \<Rightarrow> js ''active''
                    | Some s \<Rightarrow> if s = [] then js ''active'' else s)
      in if (case days of None \<Rightarrow> False | Some d \<Rightarrow> greater d 30) \<and> status = js ''active''
         then js ''paused'' else status)"

section \<open>Lemmas on references and the search\<close>

lemma length_upd_at [simp]: "length (upd_at i f xs) = length xs"
  by (simp add: upd_at_def)

lemma nth_upd_at: "j < length xs \<Longrightarrow> upd_at i f xs ! j = (if j = i then f (xs ! j) else xs ! j)"
  by (simp add: upd_at_def)

lemma nth_opt_upd_at:
  "nth_opt (upd_at i f xs) j = (if j = i then map_option f (nth_opt xs j) else nth_opt xs j)"
  by (simp add: nth_opt_def upd_at_def)

lemma upd_at_upd_at: "upd_at i f (upd_at i g xs) = upd_at i (\<lambda>x. f (g x)) xs"
  by (simp add: upd_at_def)

lemma upd_at_commute: "i \<noteq> j \<Longrightarrow> upd_at i f (upd_at j g xs) = upd_at j g (upd_at i f xs)"
  by (simp add: upd_at_def list_update_swap)

lemma upd_at_cong: "(\<And>x. f x = g x) \<Longrightarrow> upd_at i f xs = upd_at i g xs"
  by (simp add: upd_at_def)

lemma findSubtask_SomeD:
  "findSubtask x ss = Some i \<Longrightarrow> i < length ss \<and> s_id (ss ! i) = x \<and> (\<forall>j<i. s_id (ss ! j) \<noteq> x)"
proof (induction ss arbitrary: i)
  case Nil
  then show ?case by simp
next
  case (Cons s ss)
  show ?case
  proof (cases "s_id s = x")
    case True
    with Cons.prems show ?thesis by simp
  next
    case False
    with Cons.prems obtain k where k: "findSubtask x ss = Some k" "i = Suc k"
      by auto
    from Cons.IH [OF k(1)] False k(2) show ?thesis
      by (auto simp: nth_Cons split: nat.splits)
  qed
qed

lemma findSubtask_None: "findSubtask x ss = None \<longleftrightarrow> \<not> list_ex (\<lambda>s. s_id s = x) ss"
  by (induction ss) auto

lemma findIndex_findSubtask:
  "findIndex (\<lambda>s. s_id s = x) ss = (case findSubtask x ss of None \<Rightarrow> -1 | Some i \<Rightarrow> int i)"
  by (induction ss) (auto simp: Let_def split: option.splits)

lemma findSubtask_ids:
  "map s_id ss' = map s_id ss \<Longrightarrow> findSubtask x ss' = findSubtask x ss"
proof (induction ss arbitrary: ss')
  case Nil
  then show ?case by simp
next
  case (Cons s ss)
  then obtain s' r where eq: "ss' = s' # r" by (cases ss') auto
  with Cons.prems have "s_id s' = s_id s" "map s_id r = map s_id ss" by simp_all
  with Cons.IH [of r] eq show ?case by simp
qed

lemma map_upd_at_id: "(\<And>x. h (f x) = h x) \<Longrightarrow> map h (upd_at i f xs) = map h xs"
  by (simp add: upd_at_def map_update list_update_same_conv)

lemma findInTasks_SomeD:
  "findInTasks x ts = Some (ti, r) \<Longrightarrow>
     ti < length ts \<and>
     (case r of None \<Rightarrow> t_id (ts ! ti) = x
      | Some si \<Rightarrow> \<exists>ss. t_subtasks (ts ! ti) = Some ss \<and> findSubtask x ss = Some si)"
proof (induction ts arbitrary: ti)
  case Nil
  then show ?case by simp
next
  case (Cons t ts)
  let ?here = "case t_subtasks t of None \<Rightarrow> None | Some ss \<Rightarrow> findSubtask x ss"
  show ?case
  proof (cases "t_id t = x")
    case True
    with Cons.prems show ?thesis by simp
  next
    case False
    show ?thesis
    proof (cases ?here)
      case (Some si)
      with False Cons.prems have "ti = 0" "r = Some si" by simp_all
      with Some show ?thesis by (simp split: option.splits)
    next
      case None
      with False Cons.prems obtain k where k: "findInTasks x ts = Some (k, r)" "ti = Suc k"
        by auto
      from Cons.IH [OF k(1)] k(2) show ?thesis by (cases r) simp_all
    qed
  qed
qed

lemma findInMilestones_SomeD:
  "findInMilestones x ms = Some (mi, r) \<Longrightarrow>
     mi < length ms \<and>
     (case r of None \<Rightarrow> m_id (ms ! mi) = x
      | Some q \<Rightarrow> \<exists>ts. m_tasks (ms ! mi) = Some ts \<and> findInTasks x ts = Some q)"
proof (induction ms arbitrary: mi)
  case Nil
  then show ?case by simp
next
  case (Cons m ms)
  let ?here = "case m_tasks m of None \<Rightarrow> None | Some ts \<Rightarrow> findInTasks x ts"
  show ?case
  proof (cases "m_id m = x")
    case True
    with Cons.prems show ?thesis by simp
  next
    case False
    show ?thesis
    proof (cases ?here)
      case (Some q)
      with False Cons.prems have "mi = 0" "r = Some q" by simp_all
      with Some show ?thesis by (simp split: option.splits)
    next
      case None
      with False Cons.prems obtain k where k: "findInMilestones x ms = Some (k, r)" "mi = Suc k"
        by auto
      from Cons.IH [OF k(1)] k(2) show ?thesis by (cases r) simp_all
    qed
  qed
qed

lemma findInProjects_SomeD:
  "findInProjects x ps = Some (pi, q) \<Longrightarrow>
     pi < length ps \<and> findInMilestones x (p_milestones (ps ! pi)) = Some q"
proof (induction ps arbitrary: pi)
  case Nil
  then show ?case by simp
next
  case (Cons p ps)
  show ?case
  proof (cases "findInMilestones x (p_milestones p)")
    case (Some r)
    with Cons.prems show ?thesis by simp
  next
    case None
    with Cons.prems obtain k where k: "findInProjects x ps = Some (k, q)" "pi = Suc k"
      by auto
    from Cons.IH [OF k(1)] k(2) show ?thesis by simp
  qed
qed

lemma findTaskById_subtaskD:
  assumes "findTaskById data x = Some (FoundSubtask pi mi ti si)"
  shows "\<exists>ss. subtasks_at data pi mi ti = Some ss \<and> findSubtask x ss = Some si"
proof -
  from assms have a: "findInProjects x (projects data) = Some (pi, mi, Some (ti, Some si))"
    by (auto simp: findTaskById_def split: option.splits prod.splits)
  from findInProjects_SomeD [OF a]
  have p: "pi < length (projects data)"
    and b: "findInMilestones x (p_milestones (projects data ! pi)) = Some (mi, Some (ti, Some si))"
    by auto
  from findInMilestones_SomeD [OF b] obtain ts
    where m: "mi < length (p_milestones (projects data ! pi))"
      and ts: "m_tasks (p_milestones (projects data ! pi) ! mi) = Some ts"
      and c: "findInTasks x ts = Some (ti, Some si)"
    by auto
  from findInTasks_SomeD [OF c] obtain ss
    where t: "ti < length ts" and ss: "t_subtasks (ts ! ti) = Some ss" "findSubtask x ss = Some si"
    by auto
  from p m ts t ss show ?thesis
    by (simp add: subtasks_at_def task_at_def milestone_at_def nth_opt_def)
qed


lemma upd_milestone_comp:
  "upd_milestone a b f (upd_milestone a b g d) = upd_milestone a b (\<lambda>x. f (g x)) d"
  by (simp add: upd_milestone_def upd_at_upd_at)

lemma upd_milestone_cong:
  assumes "\<And>x. f x = g x"
  shows "upd_milestone a b f d = upd_milestone a b g d"
proof -
  have "f = g" by (rule ext) (rule assms)
  then show ?thesis by simp
qed

lemma upd_task_comp:
  "upd_task a b c f (upd_task a b c g d) = upd_task a b c (\<lambda>x. f (g x)) d"
  unfolding upd_task_def upd_milestone_comp
  by (rule upd_milestone_cong) (simp add: option.map_comp comp_def upd_at_upd_at)

lemma upd_task_cong:
  assumes "\<And>x. f x = g x"
  shows "upd_task a b c f d = upd_task a b c g d"
proof -
  have "f = g" by (rule ext) (rule assms)
  then show ?thesis by simp
qed

lemma upd_subtask_comp:
  "upd_subtask a b c i f (upd_subtask a b c i g d) = upd_subtask a b c i (\<lambda>x. f (g x)) d"
  unfolding upd_subtask_def upd_task_comp
  by (rule upd_task_cong) (simp add: option.map_comp comp_def upd_at_upd_at)

lemma upd_subtask_commute:
  assumes "i \<noteq> j"
  shows "upd_subtask a b c i f (upd_subtask a b c j g d) =
         upd_subtask a b c j g (upd_subtask a b c i f d)"
proof -
  have "upd_at i f (upd_at j g ss) = upd_at j g (upd_at i f ss)" for ss :: "subtask list"
    using assms by (rule upd_at_commute)
  then show ?thesis
    unfolding upd_subtask_def upd_task_comp
    by (intro upd_task_cong) (simp add: option.map_comp comp_def)
qed

lemma upd_subtask_cong:
  assumes "\<And>x. f x = g x"
  shows "upd_subtask a b c i f d = upd_subtask a b c i g d"
proof -
  have "f = g" by (rule ext) (rule assms)
  then show ?thesis by simp
qed

lemma upd_subtask_meta:
  "upd_subtask a b c i f (d\<lparr>meta := m\<rparr>) = (upd_subtask a b c i f d)\<lparr>meta := m\<rparr>"
  by (simp add: upd_subtask_def upd_task_def upd_milestone_def)

lemma meta_upd_subtask [simp]: "meta (upd_subtask a b c i f d) = meta d"
  by (simp add: upd_subtask_def upd_task_def upd_milestone_def)

lemma subtasks_at_meta [simp]: "subtasks_at (d\<lparr>meta := m\<rparr>) a b c = subtasks_at d a b c"
  by (simp add: subtasks_at_def task_at_def milestone_at_def)

lemma subtasks_at_upd_subtask:
  "subtasks_at (upd_subtask a b c i f d) a b c = map_option (upd_at i f) (subtasks_at d a b c)"
  by (simp add: subtasks_at_def task_at_def milestone_at_def upd_subtask_def upd_task_def
      upd_milestone_def nth_opt_upd_at split: option.splits)


lemma cmdMarkDone_subtask_eq:
  assumes f: "findTaskById data x = Some (FoundSubtask pi mi ti si)"
    and ss: "subtasks_at data pi mi ti = Some ss"
  shows "cmdMarkDone stamp now x (Some data) =
           Saved (saveData now
             (if Suc si < length ss
              then upd_subtask pi mi ti (Suc si) (\<lambda>s. s\<lparr>s_current := Some True\<rparr>)
                     (upd_subtask pi mi ti si
                        (\<lambda>s. s\<lparr>s_done := True, s_completedAt := Some stamp, s_current := None\<rparr>) data)
              else upd_subtask pi mi ti si
                     (\<lambda>s. s\<lparr>s_done := True, s_completedAt := Some stamp, s_current := None\<rparr>) data))"
proof -
  let ?mk = "\<lambda>s. s\<lparr>s_done := True, s_completedAt := Some stamp, s_current := None\<rparr>"
  let ?d1 = "upd_subtask pi mi ti si ?mk data"
  from findTaskById_subtaskD [OF f] ss have si: "findSubtask x ss = Some si"
    by auto
  have m: "mark_item (FoundSubtask pi mi ti si) stamp data = ?d1"
    by (simp add: mark_item_def)
  have s1: "subtasks_at ?d1 pi mi ti = Some (upd_at si ?mk ss)"
    by (simp add: subtasks_at_upd_subtask ss)
  have "map s_id (upd_at si ?mk ss) = map s_id ss"
    by (rule map_upd_at_id) simp
  from findSubtask_ids [OF this, of x] have "findSubtask x (upd_at si ?mk ss) = Some si"
    using si by simp
  then have idx: "findIndex (\<lambda>s. s_id s = x) (upd_at si ?mk ss) = int si"
    by (simp add: findIndex_findSubtask)
  have a: "advance (FoundSubtask pi mi ti si) x ?d1 =
            (if Suc si < length ss
             then upd_subtask pi mi ti (Suc si) (\<lambda>s. s\<lparr>s_current := Some True\<rparr>) ?d1 else ?d1)"
  proof -
    have "(int si < int (length ss) - 1) = (Suc si < length ss)" by auto
    moreover have "nat (int si + 1) = Suc si" by simp
    ultimately show ?thesis
      by (simp add: advance_def s1 idx Let_def)
  qed
  show ?thesis
    by (simp only: cmdMarkDone_def loadData_def f m a option.case sum.case)
qed

lemma blank_changed_mark:
  "blank_changed pi mi ti si (saveData now
      (upd_subtask pi mi ti si (\<lambda>s. s\<lparr>s_done := True, s_completedAt := Some stamp, s_current := None\<rparr>) data))
   = blank_changed pi mi ti si data"
proof -
  have "Suc si \<noteq> si" by simp
  note c = upd_subtask_commute [OF this]
  show ?thesis
    unfolding blank_changed_def saveData_def
    by (simp add: upd_subtask_meta c upd_subtask_comp)
qed

lemma blank_changed_advance:
  "blank_changed pi mi ti si (saveData now
      (upd_subtask pi mi ti (Suc si) (\<lambda>s. s\<lparr>s_current := Some True\<rparr>)
        (upd_subtask pi mi ti si (\<lambda>s. s\<lparr>s_done := True, s_completedAt := Some stamp, s_current := None\<rparr>) data)))
   = blank_changed pi mi ti si data"
proof -
  have "Suc si \<noteq> si" by simp
  note c = upd_subtask_commute [OF this]
  show ?thesis
    unfolding blank_changed_def saveData_def
    by (simp add: upd_subtask_meta c upd_subtask_comp)
qed

lemma filter_upt_only:
  "filter (\<lambda>j. j = k) [0..<n] = (if k < n then [k] else [])"
  by (induction n) auto

lemma filter_upt_cong:
  "(\<And>j. j < n \<Longrightarrow> P j = Q j) \<Longrightarrow> filter P [0..<n] = filter Q [0..<n]"
  by (rule filter_cong) auto

lemma current_siblings_only:
  assumes "\<And>j. j < length ss \<Longrightarrow> (s_current (ss ! j) = Some True) = (j = k)"
  shows "current_siblings ss = (if k < length ss then [k] else [])"
  unfolding current_siblings_def
  using filter_upt_cong [of "length ss" "\<lambda>j. s_current (ss ! j) = Some True" "\<lambda>j. j = k"] assms
  by (simp add: filter_upt_only)

lemma current_siblings_none:
  assumes "\<And>j. j < length ss \<Longrightarrow> s_current (ss ! j) \<noteq> Some True"
  shows "current_siblings ss = []"
  unfolding current_siblings_def using assms by (simp add: filter_empty_conv)

lemma upd_at_Cons_0 [simp]: "upd_at 0 f (x # xs) = f x # xs"
  by (simp add: upd_at_def)

lemma upd_at_Cons_Suc [simp]: "upd_at (Suc i) f (x # xs) = x # upd_at i f xs"
  by (simp add: upd_at_def)

lemma upd_at_Nil [simp]: "upd_at i f [] = []"
  by (simp add: upd_at_def)

lemma sum_upd_at_zero:
  "(\<And>x. x \<in> set xs \<Longrightarrow> g x = (0::nat)) \<Longrightarrow> i < length xs \<Longrightarrow>
     sum_list (map g (upd_at i f xs)) = g (f (xs ! i))"
proof (induction xs arbitrary: i)
  case Nil
  then show ?case by simp
next
  case (Cons x xs)
  show ?case
  proof (cases i)
    case 0
    have "sum_list (map g xs) = 0" using Cons.prems(1) by simp
    with 0 show ?thesis by simp
  next
    case (Suc k)
    have "g x = 0" using Cons.prems(1) by simp
    moreover have "sum_list (map g (upd_at k f xs)) = g (f (xs ! k))"
      using Cons.IH [of k] Cons.prems Suc by simp
    ultimately show ?thesis using Suc by simp
  qed
qed

lemma cur_clear [simp]:
  "cur_s (clear_subtask s) = 0" "cur_t (clear_task t) = 0" "cur_m (clear_milestone m) = 0"
  by (simp_all add: cur_s_def cur_t_def cur_m_def clear_subtask_def clear_task_def clear_milestone_def)

lemma subtasks_of_task_clear [simp]: "subtasks_of_task (clear_task t) = 0"
  by (simp add: subtasks_of_task_def clear_task_def split: option.splits)

lemma tasks_of_milestone_clear [simp]: "tasks_of_milestone (clear_milestone m) = 0"
  by (simp add: tasks_of_milestone_def clear_milestone_def split: option.splits)

lemma subtasks_of_milestone_clear [simp]: "subtasks_of_milestone (clear_milestone m) = 0"
  by (simp add: subtasks_of_milestone_def clear_milestone_def split: option.splits)

text \<open>One assignment below a milestone of the cleared document: only that milestone counts.\<close>

lemma count_in_upd_clear:
  assumes g: "\<And>m. g (clear_milestone m) = 0"
    and pi: "pi < length (projects data)"
    and mi: "mi < length (p_milestones (projects data ! pi))"
  shows "count_in g (upd_milestone pi mi h (clearCurrentFlags data)) =
           g (h (clear_milestone (p_milestones (projects data ! pi) ! mi)))"
proof -
  let ?ps = "map clear_project (projects data)"
  let ?F = "\<lambda>p. p\<lparr>p_milestones := upd_at mi h (p_milestones p)\<rparr>"
  let ?G = "\<lambda>p. sum_list (map g (p_milestones p))"
  have zero: "\<And>p. p \<in> set ?ps \<Longrightarrow> ?G p = 0"
    by (auto simp: clear_project_def g)
  have "count_in g (upd_milestone pi mi h (clearCurrentFlags data)) =
          sum_list (map ?G (upd_at pi ?F ?ps))"
    by (simp add: count_in_def upd_milestone_def clearCurrentFlags_def)
  also have "\<dots> = ?G (?F (?ps ! pi))"
    using pi by (intro sum_upd_at_zero zero) simp_all
  also have "\<dots> = sum_list (map g (upd_at mi h (map clear_milestone (p_milestones (projects data ! pi)))))"
    using pi by (simp add: clear_project_def)
  also have "\<dots> = g (h (map clear_milestone (p_milestones (projects data ! pi)) ! mi))"
    using mi by (intro sum_upd_at_zero) (auto simp: g)
  finally show ?thesis using mi by simp
qed


lemma subtask_lookup_None:
  "(case t_subtasks t of None \<Rightarrow> None | Some ss \<Rightarrow> findSubtask x ss) = None \<longleftrightarrow>
     \<not> (case t_subtasks t of None \<Rightarrow> False | Some ss \<Rightarrow> list_ex (\<lambda>s. s_id s = x) ss)"
  by (cases "t_subtasks t") (simp_all add: findSubtask_None)

lemma findInTasks_None:
  "findInTasks x ts = None \<longleftrightarrow>
     \<not> list_ex (\<lambda>t. t_id t = x \<or>
          (case t_subtasks t of None \<Rightarrow> False | Some ss \<Rightarrow> list_ex (\<lambda>s. s_id s = x) ss)) ts"
proof (induction ts)
  case Nil
  then show ?case by simp
next
  case (Cons t ts)
  let ?here = "case t_subtasks t of None \<Rightarrow> None | Some ss \<Rightarrow> findSubtask x ss"
  show ?case
  proof (cases "t_id t = x")
    case True
    then show ?thesis by simp
  next
    case False
    show ?thesis
    proof (cases ?here)
      case None
      with subtask_lookup_None [where t = t and x = x]
      have "\<not> (case t_subtasks t of None \<Rightarrow> False | Some ss \<Rightarrow> list_ex (\<lambda>s. s_id s = x) ss)"
        by simp
      with None False Cons.IH show ?thesis by simp
    next
      case (Some si)
      with subtask_lookup_None [where t = t and x = x]
      have "case t_subtasks t of None \<Rightarrow> False | Some ss \<Rightarrow> list_ex (\<lambda>s. s_id s = x) ss"
        by simp
      with Some False show ?thesis by simp
    qed
  qed
qed

lemma tasks_lookup_None:
  "(case m_tasks m of None \<Rightarrow> None | Some ts \<Rightarrow> findInTasks x ts) = None \<longleftrightarrow> \<not> hasTask x m"
  by (simp add: hasTask_def findInTasks_None split: option.splits)

lemma findInMilestones_None:
  "findInMilestones x ms = None \<Longrightarrow> m \<in> set ms \<Longrightarrow> \<not> hasTask x m"
proof (induction ms)
  case Nil
  then show ?case by simp
next
  case (Cons a ms)
  let ?here = "case m_tasks a of None \<Rightarrow> None | Some ts \<Rightarrow> findInTasks x ts"
  from Cons.prems(1) have a: "m_id a \<noteq> x" "?here = None" "findInMilestones x ms = None"
    by (auto split: if_splits option.splits)
  from a(2) tasks_lookup_None [where m = a and x = x] have "\<not> hasTask x a" by simp
  with Cons.IH [OF a(3)] Cons.prems(2) show ?case by auto
qed

lemma findInMilestones_first:
  "findInMilestones x ms = Some (mi, Some r) \<Longrightarrow>
     hasTask x (ms ! mi) \<and> (\<forall>k<mi. \<not> hasTask x (ms ! k))"
proof (induction ms arbitrary: mi)
  case Nil
  then show ?case by simp
next
  case (Cons a ms)
  let ?here = "case m_tasks a of None \<Rightarrow> None | Some ts \<Rightarrow> findInTasks x ts"
  from Cons.prems have a: "m_id a \<noteq> x" by (auto split: if_splits)
  show ?case
  proof (cases ?here)
    case (Some q)
    then have "hasTask x a" using tasks_lookup_None [where m = a and x = x] by simp
    moreover from Some a Cons.prems have "mi = 0" by simp
    ultimately show ?thesis by simp
  next
    case None
    then have n: "\<not> hasTask x a" using tasks_lookup_None [where m = a and x = x] by simp
    from None a Cons.prems obtain k where k: "findInMilestones x ms = Some (k, Some r)" "mi = Suc k"
      by auto
    from Cons.IH [OF k(1)] n k(2) show ?thesis
      by (auto simp: less_Suc_eq_0_disj)
  qed
qed

lemma mark_first_none: "(\<And>m. m \<in> set ms \<Longrightarrow> \<not> hasTask x m) \<Longrightarrow> mark_first x ms = ms"
  by (induction ms) simp_all

lemma mark_first_at:
  "mi < length ms \<Longrightarrow> hasTask x (ms ! mi) \<Longrightarrow> (\<And>k. k < mi \<Longrightarrow> \<not> hasTask x (ms ! k)) \<Longrightarrow>
     mark_first x ms = upd_at mi (\<lambda>m. m\<lparr>m_current := Some True\<rparr>) ms"
proof (induction ms arbitrary: mi)
  case Nil
  then show ?case by simp
next
  case (Cons a ms)
  show ?case
  proof (cases mi)
    case 0
    with Cons.prems(2) show ?thesis by simp
  next
    case (Suc k)
    with Cons.prems(3) [of 0] have a: "\<not> hasTask x a" by simp
    have "mark_first x ms = upd_at k (\<lambda>m. m\<lparr>m_current := Some True\<rparr>) ms"
    proof (rule Cons.IH)
      show "k < length ms" using Cons.prems(1) Suc by simp
      show "hasTask x (ms ! k)" using Cons.prems(2) Suc by simp
      show "\<not> hasTask x (ms ! j)" if "j < k" for j
        using Cons.prems(3) [of "Suc j"] that Suc by simp
    qed
    with a Suc show ?thesis by simp
  qed
qed

lemma list_ex_map_clear_subtask:
  "list_ex (\<lambda>s. s_id s = x) (map clear_subtask ss) = list_ex (\<lambda>s. s_id s = x) ss"
  by (induction ss) (simp_all add: clear_subtask_def)

lemma hasTask_clear [simp]: "hasTask x (clear_milestone m) = hasTask x m"
proof -
  let ?Q = "\<lambda>t. t_id t = x \<or>
          (case t_subtasks t of None \<Rightarrow> False | Some ss \<Rightarrow> list_ex (\<lambda>s. s_id s = x) ss)"
  have q: "?Q (clear_task t) = ?Q t" for t
    by (simp add: clear_task_def list_ex_map_clear_subtask split: option.splits)
  have "list_ex ?Q (map clear_task ts) = list_ex ?Q ts" for ts
    by (induction ts) (simp_all add: q)
  then show ?thesis
    by (simp add: hasTask_def clear_milestone_def split: option.splits)
qed

lemma list_ex_upd_at:
  "(\<And>y. Q (f y) = Q y) \<Longrightarrow> list_ex Q (upd_at i f xs) = list_ex Q xs"
proof (induction xs arbitrary: i)
  case Nil
  then show ?case by simp
next
  case (Cons a xs)
  then show ?case by (cases i) simp_all
qed

lemma hasTask_set_task [simp]:
  "hasTask x (m\<lparr>m_tasks := map_option (upd_at ti (\<lambda>t. t\<lparr>t_current := c\<rparr>)) (m_tasks m)\<rparr>) = hasTask x m"
  by (simp add: hasTask_def list_ex_upd_at split: option.splits)

lemma hasTask_set_subtask [simp]:
  "hasTask x (m\<lparr>m_tasks := map_option (upd_at ti
       (\<lambda>t. t\<lparr>t_subtasks := map_option (upd_at si (\<lambda>s. s\<lparr>s_current := c\<rparr>)) (t_subtasks t)\<rparr>))
       (m_tasks m)\<rparr>) = hasTask x m"
proof -
  let ?Q = "\<lambda>t. t_id t = x \<or>
          (case t_subtasks t of None \<Rightarrow> False | Some ss \<Rightarrow> list_ex (\<lambda>s. s_id s = x) ss)"
  let ?f = "\<lambda>t. t\<lparr>t_subtasks := map_option (upd_at si (\<lambda>s. s\<lparr>s_current := c\<rparr>)) (t_subtasks t)\<rparr>"
  have "?Q (?f t) = ?Q t" for t
    by (simp add: list_ex_upd_at split: option.splits)
  then have "list_ex ?Q (upd_at ti ?f ts) = list_ex ?Q ts" for ts
    by (rule list_ex_upd_at)
  then show ?thesis
    by (cases "m_tasks m") (simp_all add: hasTask_def)
qed


lemma findInProjects_first:
  "findInProjects x ps = Some (pi, q) \<Longrightarrow> j < pi \<Longrightarrow>
     findInMilestones x (p_milestones (ps ! j)) = None"
proof (induction ps arbitrary: pi j)
  case Nil
  then show ?case by simp
next
  case (Cons p ps)
  show ?case
  proof (cases "findInMilestones x (p_milestones p)")
    case (Some r)
    with Cons.prems show ?thesis by simp
  next
    case None
    with Cons.prems obtain k where k: "findInProjects x ps = Some (k, q)" "pi = Suc k"
      by auto
    show ?thesis
    proof (cases j)
      case 0
      with None show ?thesis by simp
    next
      case (Suc i)
      with Cons.IH [OF k(1), of i] Cons.prems(2) k(2) show ?thesis by simp
    qed
  qed
qed

text \<open>What a successful search says about the position it returns.\<close>

lemma findTaskById_milestoneD:
  assumes "findTaskById data x = Some (FoundMilestone pi mi)"
  shows "pi < length (projects data) \<and> mi < length (p_milestones (projects data ! pi))"
proof -
  from assms have a: "findInProjects x (projects data) = Some (pi, mi, None)"
    by (auto simp: findTaskById_def split: option.splits prod.splits)
  from findInProjects_SomeD [OF a] findInMilestones_SomeD [of x "p_milestones (projects data ! pi)" mi None]
  show ?thesis by simp
qed

lemma findTaskById_taskD:
  assumes "findTaskById data x = Some (FoundTask pi mi ti)"
  shows "pi < length (projects data) \<and> mi < length (p_milestones (projects data ! pi)) \<and>
         (\<exists>ts. m_tasks (p_milestones (projects data ! pi) ! mi) = Some ts \<and> ti < length ts) \<and>
         hasTask x (p_milestones (projects data ! pi) ! mi) \<and>
         (\<forall>k<mi. \<not> hasTask x (p_milestones (projects data ! pi) ! k))"
proof -
  from assms have a: "findInProjects x (projects data) = Some (pi, mi, Some (ti, None))"
    by (auto simp: findTaskById_def split: option.splits prod.splits)
  from findInProjects_SomeD [OF a]
  have p: "pi < length (projects data)"
    and b: "findInMilestones x (p_milestones (projects data ! pi)) = Some (mi, Some (ti, None))"
    by auto
  from findInMilestones_SomeD [OF b] obtain ts
    where m: "mi < length (p_milestones (projects data ! pi))"
      and ts: "m_tasks (p_milestones (projects data ! pi) ! mi) = Some ts"
      and c: "findInTasks x ts = Some (ti, None)"
    by auto
  from findInTasks_SomeD [OF c] have "ti < length ts" by simp
  with p m ts findInMilestones_first [OF b] show ?thesis by simp
qed

lemma findTaskById_subtaskD2:
  assumes "findTaskById data x = Some (FoundSubtask pi mi ti si)"
  shows "pi < length (projects data) \<and> mi < length (p_milestones (projects data ! pi)) \<and>
         (\<exists>ts ss. m_tasks (p_milestones (projects data ! pi) ! mi) = Some ts \<and> ti < length ts \<and>
            t_subtasks (ts ! ti) = Some ss \<and> si < length ss) \<and>
         hasTask x (p_milestones (projects data ! pi) ! mi) \<and>
         (\<forall>k<mi. \<not> hasTask x (p_milestones (projects data ! pi) ! k))"
proof -
  from assms have a: "findInProjects x (projects data) = Some (pi, mi, Some (ti, Some si))"
    by (auto simp: findTaskById_def split: option.splits prod.splits)
  from findInProjects_SomeD [OF a]
  have p: "pi < length (projects data)"
    and b: "findInMilestones x (p_milestones (projects data ! pi)) = Some (mi, Some (ti, Some si))"
    by auto
  from findInMilestones_SomeD [OF b] obtain ts
    where m: "mi < length (p_milestones (projects data ! pi))"
      and ts: "m_tasks (p_milestones (projects data ! pi) ! mi) = Some ts"
      and c: "findInTasks x ts = Some (ti, Some si)"
    by auto
  from findInTasks_SomeD [OF c] obtain ss
    where t: "ti < length ts" and ss: "t_subtasks (ts ! ti) = Some ss" "findSubtask x ss = Some si"
    by auto
  from findSubtask_SomeD [OF ss(2)] have "si < length ss" by simp
  with p m ts t ss(1) findInMilestones_first [OF b] show ?thesis by simp
qed


text \<open>The chain of assignments Set-current makes below the milestone of the found node.\<close>

definition set_chain :: "found \<Rightarrow> milestone \<Rightarrow> milestone" where
  "set_chain f =
     (case f of
        FoundMilestone pi mi \<Rightarrow> (\<lambda>m. m\<lparr>m_current := Some True\<rparr>)
      | FoundTask pi mi ti \<Rightarrow>
          (\<lambda>m. (m\<lparr>m_tasks := map_option (upd_at ti (\<lambda>t. t\<lparr>t_current := Some True\<rparr>)) (m_tasks m)\<rparr>)
            \<lparr>m_current := Some True\<rparr>)
      | FoundSubtask pi mi ti si \<Rightarrow>
          (\<lambda>m. (m\<lparr>m_tasks := map_option (upd_at ti
               (\<lambda>t. t\<lparr>t_subtasks := map_option (upd_at si (\<lambda>s. s\<lparr>s_current := Some True\<rparr>))
                       (t_subtasks t)\<rparr>)) (m_tasks m)\<rparr>)
            \<lparr>m_current := Some True\<rparr>))"

lemma count_in_saveData [simp]: "count_in g (saveData now d) = count_in g d"
  by (simp add: count_in_def saveData_def)

lemma cur_m_set_chain [simp]: "cur_m (set_chain f m) = 1"
  by (cases f) (simp_all add: set_chain_def cur_m_def)

lemma counts_chain_milestone:
  "tasks_of_milestone (set_chain (FoundMilestone pi mi) (clear_milestone m)) = 0"
  "subtasks_of_milestone (set_chain (FoundMilestone pi mi) (clear_milestone m)) = 0"
  by (simp_all add: set_chain_def tasks_of_milestone_def subtasks_of_milestone_def
      clear_milestone_def split: option.splits)

lemma counts_chain_task:
  assumes ts: "m_tasks m = Some ts" and ti: "ti < length ts"
  shows "tasks_of_milestone (set_chain (FoundTask pi mi ti) (clear_milestone m)) = 1"
    and "subtasks_of_milestone (set_chain (FoundTask pi mi ti) (clear_milestone m)) = 0"
proof -
  let ?set = "\<lambda>t. t\<lparr>t_current := Some True\<rparr>"
  have "sum_list (map cur_t (upd_at ti ?set (map clear_task ts))) = cur_t (?set (map clear_task ts ! ti))"
    using ti by (intro sum_upd_at_zero) auto
  then show "tasks_of_milestone (set_chain (FoundTask pi mi ti) (clear_milestone m)) = 1"
    by (simp add: set_chain_def tasks_of_milestone_def clear_milestone_def ts cur_t_def)
  have "sum_list (map subtasks_of_task (upd_at ti ?set (map clear_task ts))) =
          subtasks_of_task (?set (map clear_task ts ! ti))"
    using ti by (intro sum_upd_at_zero) auto
  also have "\<dots> = subtasks_of_task (clear_task (ts ! ti))"
    using ti by (simp add: subtasks_of_task_def)
  finally show "subtasks_of_milestone (set_chain (FoundTask pi mi ti) (clear_milestone m)) = 0"
    by (simp add: set_chain_def subtasks_of_milestone_def clear_milestone_def ts)
qed

lemma counts_chain_subtask:
  assumes ts: "m_tasks m = Some ts" and ti: "ti < length ts"
    and ss: "t_subtasks (ts ! ti) = Some ss" and si: "si < length ss"
  shows "tasks_of_milestone (set_chain (FoundSubtask pi mi ti si) (clear_milestone m)) = 0"
    and "subtasks_of_milestone (set_chain (FoundSubtask pi mi ti si) (clear_milestone m)) = 1"
proof -
  let ?set = "\<lambda>s. s\<lparr>s_current := Some True\<rparr>"
  let ?h = "\<lambda>t. t\<lparr>t_subtasks := map_option (upd_at si ?set) (t_subtasks t)\<rparr>"
  have "sum_list (map cur_t (upd_at ti ?h (map clear_task ts))) = cur_t (?h (map clear_task ts ! ti))"
    using ti by (intro sum_upd_at_zero) auto
  also have "\<dots> = cur_t (clear_task (ts ! ti))"
    using ti by (simp add: cur_t_def)
  finally show "tasks_of_milestone (set_chain (FoundSubtask pi mi ti si) (clear_milestone m)) = 0"
    by (simp add: set_chain_def tasks_of_milestone_def clear_milestone_def ts)
  have "sum_list (map cur_s (upd_at si ?set (map clear_subtask ss))) = cur_s (?set (map clear_subtask ss ! si))"
    using si by (intro sum_upd_at_zero) auto
  then have one: "subtasks_of_task (?h (clear_task (ts ! ti))) = 1"
    by (simp add: subtasks_of_task_def clear_task_def ss cur_s_def)
  have "sum_list (map subtasks_of_task (upd_at ti ?h (map clear_task ts))) =
          subtasks_of_task (?h (map clear_task ts ! ti))"
    using ti by (intro sum_upd_at_zero) auto
  with one ti show "subtasks_of_milestone (set_chain (FoundSubtask pi mi ti si) (clear_milestone m)) = 1"
    by (simp add: set_chain_def subtasks_of_milestone_def clear_milestone_def ts)
qed

lemma cmdSetCurrent_found:
  "findTaskById data x = Some f \<Longrightarrow>
     saved_doc (cmdSetCurrent now x (Some data)) =
       Some (saveData now (mark_parent_milestone f x (set_item_current f (clearCurrentFlags data))))"
  by (simp add: cmdSetCurrent_def loadData_def saved_doc_def)

subsection \<open>Set-current in closed form\<close>

text \<open>
  The loop that marks the parent milestone, on the cleared document with one node set:
  in the project of the found node it marks the milestone of that node, and in every
  other project the first milestone that has a task or subtask with the id.
\<close>

lemma sum_upd_at_split:
  "i < length xs \<Longrightarrow>
     sum_list (map G (upd_at i k xs)) =
       sum_list (map G (take i xs)) + G (k (xs ! i)) + (sum_list (map G (drop (Suc i) xs)) :: nat)"
  by (simp add: upd_at_def upd_conv_take_nth_drop)

lemma sum_list_indicator:
  "sum_list (map (\<lambda>x. if P x then 1 else 0) xs) = (length (filter P xs) :: nat)"
  by (induction xs) simp_all

lemma mark_first_clear_count:
  "sum_list (map cur_m (mark_first x (map clear_milestone ms))) =
     (if list_ex (hasTask x) ms then 1 else 0)"
proof (induction ms)
  case Nil
  then show ?case by simp
next
  case (Cons m ms)
  have one: "cur_m ((clear_milestone m)\<lparr>m_current := Some True\<rparr>) = 1"
    by (simp add: cur_m_def)
  have z: "sum_list (map cur_m (map clear_milestone ms)) = 0"
    by (induction ms) simp_all
  show ?case
  proof (cases "hasTask x m")
    case True
    with one z show ?thesis by simp
  next
    case False
    with Cons show ?thesis by simp
  qed
qed

lemma mark_first_map:
  "(\<And>m c. g (m\<lparr>m_current := c\<rparr>) = g m) \<Longrightarrow> map g (mark_first x ms) = map g ms"
  by (induction ms) simp_all

lemma mark_parent_projects:
  assumes pi: "pi < length (projects data)"
    and mi: "mi < length (p_milestones (projects data ! pi))"
    and has: "hasTask x (p_milestones (projects data ! pi) ! mi)"
    and first: "\<And>k. k < mi \<Longrightarrow> \<not> hasTask x (p_milestones (projects data ! pi) ! k)"
    and keep: "\<And>m. hasTask x (h m) = hasTask x m"
  shows "map (\<lambda>p. p\<lparr>p_milestones := mark_first x (p_milestones p)\<rparr>)
             (projects (upd_milestone pi mi h (clearCurrentFlags data))) =
         upd_at pi
           (\<lambda>p. p\<lparr>p_milestones := upd_at mi (\<lambda>m. (h m)\<lparr>m_current := Some True\<rparr>)
                    (map clear_milestone (p_milestones (projects data ! pi)))\<rparr>)
           (map (\<lambda>p. (clear_project p)\<lparr>p_milestones :=
                    mark_first x (p_milestones (clear_project p))\<rparr>) (projects data))"
proof (rule nth_equalityI)
  let ?d1 = "upd_milestone pi mi h (clearCurrentFlags data)"
  let ?M = "\<lambda>p. p\<lparr>p_milestones := mark_first x (p_milestones p)\<rparr>"
  let ?rhs = "upd_at pi
           (\<lambda>p. p\<lparr>p_milestones := upd_at mi (\<lambda>m. (h m)\<lparr>m_current := Some True\<rparr>)
                    (map clear_milestone (p_milestones (projects data ! pi)))\<rparr>)
           (map (\<lambda>p. (clear_project p)\<lparr>p_milestones :=
                    mark_first x (p_milestones (clear_project p))\<rparr>) (projects data))"
  show "length (map ?M (projects ?d1)) = length ?rhs"
    by (simp add: upd_milestone_def clearCurrentFlags_def)
  fix j
  assume "j < length (map ?M (projects ?d1))"
  then have j: "j < length (projects data)"
    by (simp add: upd_milestone_def clearCurrentFlags_def)
  let ?ms = "p_milestones (projects data ! j)"
  show "map ?M (projects ?d1) ! j = ?rhs ! j"
  proof (cases "j = pi")
    case False
    with j show ?thesis
      by (simp add: upd_milestone_def clearCurrentFlags_def nth_upd_at)
  next
    case True
    let ?ms1 = "upd_at mi h (map clear_milestone ?ms)"
    have "mark_first x ?ms1 = upd_at mi (\<lambda>m. m\<lparr>m_current := Some True\<rparr>) ?ms1"
    proof (rule mark_first_at)
      show "mi < length ?ms1" using mi True by simp
      show "hasTask x (?ms1 ! mi)" using mi has True by (simp add: nth_upd_at keep)
      show "\<not> hasTask x (?ms1 ! k)" if "k < mi" for k
        using first [OF that] that mi True by (simp add: nth_upd_at)
    qed
    with j True show ?thesis
      by (simp add: upd_milestone_def clearCurrentFlags_def nth_upd_at clear_project_def upd_at_upd_at)
  qed
qed

lemma upd_at_cong_nth:
  "(i < length xs \<Longrightarrow> f (xs ! i) = g (xs ! i)) \<Longrightarrow> upd_at i f xs = upd_at i g xs"
  by (simp add: upd_at_def)

text \<open>
  What Set-current makes of a project other than the one of the found node: its flags
  are cleared and, for a task or subtask, its first milestone with the id is marked.
\<close>

definition marked_elsewhere :: "string \<Rightarrow> found \<Rightarrow> project \<Rightarrow> project" where
  "marked_elsewhere x f p =
     (case f of
        FoundMilestone pi mi \<Rightarrow> clear_project p
      | _ \<Rightarrow> (clear_project p)\<lparr>p_milestones := mark_first x (p_milestones (clear_project p))\<rparr>)"

lemma cmdSetCurrent_general:
  assumes f: "findTaskById data x = Some f"
  shows "saved_doc (cmdSetCurrent now x (Some data)) =
     Some (saveData now ((clearCurrentFlags data)\<lparr>projects :=
        upd_at (found_project f)
          (\<lambda>p. p\<lparr>p_milestones := upd_at (found_milestone f) (set_chain f)
                   (map clear_milestone (p_milestones (projects data ! found_project f)))\<rparr>)
          (map (marked_elsewhere x f) (projects data))\<rparr>))"
proof (cases f)
  case (FoundMilestone pi mi)
  have "upd_at pi (\<lambda>p. p\<lparr>p_milestones := upd_at mi (\<lambda>m. m\<lparr>m_current := Some True\<rparr>) (p_milestones p)\<rparr>)
          (map clear_project (projects data)) =
        upd_at pi (\<lambda>p. p\<lparr>p_milestones := upd_at mi (\<lambda>m. m\<lparr>m_current := Some True\<rparr>)
                   (map clear_milestone (p_milestones (projects data ! pi)))\<rparr>)
          (map clear_project (projects data))"
    by (rule upd_at_cong_nth) (simp add: clear_project_def)
  then show ?thesis
    by (simp add: cmdSetCurrent_found [OF f] FoundMilestone set_item_current_def
        mark_parent_milestone_def set_chain_def upd_milestone_def clearCurrentFlags_def
        marked_elsewhere_def [abs_def])
next
  case (FoundTask pi mi ti)
  let ?h = "\<lambda>m. m\<lparr>m_tasks := map_option (upd_at ti (\<lambda>t. t\<lparr>t_current := Some True\<rparr>)) (m_tasks m)\<rparr>"
  let ?dc = "clearCurrentFlags data"
  from findTaskById_taskD [OF f [unfolded FoundTask]]
  have pi: "pi < length (projects data)"
    and mi: "mi < length (p_milestones (projects data ! pi))"
    and has: "hasTask x (p_milestones (projects data ! pi) ! mi)"
    and first: "\<And>k. k < mi \<Longrightarrow> \<not> hasTask x (p_milestones (projects data ! pi) ! k)"
    by auto
  have keep: "\<And>m. hasTask x (?h m) = hasTask x m"
    by simp
  note c = mark_parent_projects [of pi data mi x ?h, OF pi mi has first keep]
  have s: "set_item_current f ?dc = upd_milestone pi mi ?h ?dc"
    by (simp add: FoundTask set_item_current_def upd_task_def)
  have "mark_parent_milestone f x (upd_milestone pi mi ?h ?dc) =
          (upd_milestone pi mi ?h ?dc)\<lparr>projects :=
             map (\<lambda>p. p\<lparr>p_milestones := mark_first x (p_milestones p)\<rparr>)
               (projects (upd_milestone pi mi ?h ?dc))\<rparr>"
    by (simp add: FoundTask mark_parent_milestone_def)
  also have "\<dots> = ?dc\<lparr>projects :=
             map (\<lambda>p. p\<lparr>p_milestones := mark_first x (p_milestones p)\<rparr>)
               (projects (upd_milestone pi mi ?h ?dc))\<rparr>"
    by (simp add: upd_milestone_def)
  finally have "mark_parent_milestone f x (set_item_current f ?dc) =
      ?dc\<lparr>projects :=
             map (\<lambda>p. p\<lparr>p_milestones := mark_first x (p_milestones p)\<rparr>)
               (projects (upd_milestone pi mi ?h ?dc))\<rparr>"
    by (simp only: s)
  then have "mark_parent_milestone f x (set_item_current f ?dc) =
      ?dc\<lparr>projects :=
         upd_at pi
           (\<lambda>p. p\<lparr>p_milestones := upd_at mi (\<lambda>m. (?h m)\<lparr>m_current := Some True\<rparr>)
                    (map clear_milestone (p_milestones (projects data ! pi)))\<rparr>)
           (map (\<lambda>p. (clear_project p)\<lparr>p_milestones :=
                    mark_first x (p_milestones (clear_project p))\<rparr>) (projects data))\<rparr>"
    by (simp only: c)
  then show ?thesis
    unfolding cmdSetCurrent_found [OF f]
    by (simp add: FoundTask set_chain_def marked_elsewhere_def [abs_def])
next
  case (FoundSubtask pi mi ti si)
  let ?h = "\<lambda>m. m\<lparr>m_tasks := map_option (upd_at ti
               (\<lambda>t. t\<lparr>t_subtasks := map_option (upd_at si (\<lambda>s. s\<lparr>s_current := Some True\<rparr>))
                       (t_subtasks t)\<rparr>)) (m_tasks m)\<rparr>"
  let ?dc = "clearCurrentFlags data"
  from findTaskById_subtaskD2 [OF f [unfolded FoundSubtask]]
  have pi: "pi < length (projects data)"
    and mi: "mi < length (p_milestones (projects data ! pi))"
    and has: "hasTask x (p_milestones (projects data ! pi) ! mi)"
    and first: "\<And>k. k < mi \<Longrightarrow> \<not> hasTask x (p_milestones (projects data ! pi) ! k)"
    by auto
  have keep: "\<And>m. hasTask x (?h m) = hasTask x m"
    by simp
  note c = mark_parent_projects [of pi data mi x ?h, OF pi mi has first keep]
  have s: "set_item_current f ?dc = upd_milestone pi mi ?h ?dc"
    by (simp add: FoundSubtask set_item_current_def upd_subtask_def upd_task_def)
  have "mark_parent_milestone f x (upd_milestone pi mi ?h ?dc) =
          (upd_milestone pi mi ?h ?dc)\<lparr>projects :=
             map (\<lambda>p. p\<lparr>p_milestones := mark_first x (p_milestones p)\<rparr>)
               (projects (upd_milestone pi mi ?h ?dc))\<rparr>"
    by (simp add: FoundSubtask mark_parent_milestone_def)
  also have "\<dots> = ?dc\<lparr>projects :=
             map (\<lambda>p. p\<lparr>p_milestones := mark_first x (p_milestones p)\<rparr>)
               (projects (upd_milestone pi mi ?h ?dc))\<rparr>"
    by (simp add: upd_milestone_def)
  finally have "mark_parent_milestone f x (set_item_current f ?dc) =
      ?dc\<lparr>projects :=
             map (\<lambda>p. p\<lparr>p_milestones := mark_first x (p_milestones p)\<rparr>)
               (projects (upd_milestone pi mi ?h ?dc))\<rparr>"
    by (simp only: s)
  then have "mark_parent_milestone f x (set_item_current f ?dc) =
      ?dc\<lparr>projects :=
         upd_at pi
           (\<lambda>p. p\<lparr>p_milestones := upd_at mi (\<lambda>m. (?h m)\<lparr>m_current := Some True\<rparr>)
                    (map clear_milestone (p_milestones (projects data ! pi)))\<rparr>)
           (map (\<lambda>p. (clear_project p)\<lparr>p_milestones :=
                    mark_first x (p_milestones (clear_project p))\<rparr>) (projects data))\<rparr>"
    by (simp only: c)
  then show ?thesis
    unfolding cmdSetCurrent_found [OF f]
    by (simp add: FoundSubtask set_chain_def marked_elsewhere_def [abs_def])
qed

lemma found_valid:
  assumes f: "findTaskById data x = Some f"
  shows "found_project f < length (projects data) \<and>
         found_milestone f < length (p_milestones (projects data ! found_project f))"
proof (cases f)
  case (FoundMilestone pi mi)
  with findTaskById_milestoneD [of data x pi mi] f show ?thesis by simp
next
  case (FoundTask pi mi ti)
  with findTaskById_taskD [of data x pi mi ti] f show ?thesis by simp
next
  case (FoundSubtask pi mi ti si)
  with findTaskById_subtaskD2 [of data x pi mi ti si] f show ?thesis by simp
qed

lemma count_in_general:
  assumes g0: "\<And>m. g (clear_milestone m) = 0"
    and pi: "found_project f < length (projects data)"
    and mi: "found_milestone f < length (p_milestones (projects data ! found_project f))"
  shows "count_in g (saveData now ((clearCurrentFlags data)\<lparr>projects :=
        upd_at (found_project f)
          (\<lambda>p. p\<lparr>p_milestones := upd_at (found_milestone f) (set_chain f)
                   (map clear_milestone (p_milestones (projects data ! found_project f)))\<rparr>)
          (map (marked_elsewhere x f) (projects data))\<rparr>)) =
         sum_list (map (\<lambda>p. sum_list (map g (p_milestones (marked_elsewhere x f p))))
           (other_projects f data)) +
         g (set_chain f (clear_milestone
              (p_milestones (projects data ! found_project f) ! found_milestone f)))"
proof -
  let ?pi = "found_project f" and ?mi = "found_milestone f"
  let ?ms = "p_milestones (projects data ! ?pi)"
  let ?K = "\<lambda>p. p\<lparr>p_milestones := upd_at ?mi (set_chain f) (map clear_milestone ?ms)\<rparr>"
  let ?G = "\<lambda>p. sum_list (map g (p_milestones p))"
  let ?xs = "map (marked_elsewhere x f) (projects data)"
  from pi have l: "?pi < length ?xs" by simp
  have here: "?G (?K (?xs ! ?pi)) = g (set_chain f (clear_milestone (?ms ! ?mi)))"
  proof -
    have "sum_list (map g (upd_at ?mi (set_chain f) (map clear_milestone ?ms))) =
            g (set_chain f (map clear_milestone ?ms ! ?mi))"
      using mi by (intro sum_upd_at_zero) (auto simp: g0)
    with mi show ?thesis by simp
  qed
  have "count_in g (saveData now ((clearCurrentFlags data)\<lparr>projects := upd_at ?pi ?K ?xs\<rparr>)) =
          sum_list (map ?G (upd_at ?pi ?K ?xs))"
    by (simp add: count_in_def saveData_def)
  also have "\<dots> = sum_list (map ?G (take ?pi ?xs)) + ?G (?K (?xs ! ?pi)) +
                    sum_list (map ?G (drop (Suc ?pi) ?xs))"
    by (rule sum_upd_at_split [OF l])
  also have "\<dots> = sum_list (map (\<lambda>p. ?G (marked_elsewhere x f p)) (other_projects f data)) +
                    g (set_chain f (clear_milestone (?ms ! ?mi)))"
    unfolding here by (simp add: other_projects_def take_map drop_map comp_def)
  finally show ?thesis .
qed

lemma elsewhere_current:
  "sum_list (map cur_m (p_milestones (marked_elsewhere x f p))) =
     (if found_type f = ''milestone'' then 0
      else if list_ex (hasTask x) (p_milestones p) then 1 else 0)"
proof -
  have z: "sum_list (map cur_m (map clear_milestone ms)) = 0" for ms
    by (induction ms) simp_all
  show ?thesis
    by (cases f)
      (simp_all add: marked_elsewhere_def clear_project_def mark_first_clear_count z)
qed

lemma elsewhere_below:
  assumes "\<And>m c. g (m\<lparr>m_current := c\<rparr>) = g m" "\<And>m. g (clear_milestone m) = (0::nat)"
  shows "sum_list (map g (p_milestones (marked_elsewhere x f p))) = 0"
proof -
  have z: "sum_list (map g (map clear_milestone ms)) = 0" for ms
    by (induction ms) (simp_all add: assms(2))
  have "sum_list (map g (mark_first x (map clear_milestone ms))) = 0" for ms
    unfolding mark_first_map [of g, OF assms(1)] by (rule z)
  with z show ?thesis
    by (cases f) (simp_all add: marked_elsewhere_def clear_project_def)
qed

lemma milestone_at_general:
  assumes "pi < length (projects data)"
  shows "milestone_at (saveData now ((clearCurrentFlags data)\<lparr>projects :=
        upd_at pi (\<lambda>p. p\<lparr>p_milestones := upd_at mi h (map clear_milestone (p_milestones (projects data ! pi)))\<rparr>)
          (map k (projects data))\<rparr>)) pi mi =
      (if mi < length (p_milestones (projects data ! pi))
       then Some (h (clear_milestone (p_milestones (projects data ! pi) ! mi))) else None)"
  using assms
  by (simp add: milestone_at_def saveData_def nth_opt_def nth_upd_at)

lemma not_elsewhere_shared: "\<not> id_elsewhere x f data \<Longrightarrow> shared_elsewhere x f data = 0"
  by (simp add: id_elsewhere_def shared_elsewhere_def list_ex_iff filter_empty_conv)

section \<open>Lemmas on the matchers\<close>

lemma line_terminator_is_space: "is_line_terminator c \<Longrightarrow> is_space c"
  by (auto simp: is_line_terminator_def is_space_def)

lemma not_space_dot: "\<not> is_space c \<Longrightarrow> dot c"
  using line_terminator_is_space by (auto simp: dot_def)

text \<open>A greedy re_star whose continuation always succeeds takes the longest prefix.\<close>

lemma star_from_total:
  "re_star_from P taken s (\<lambda>cap rest. Some (g cap rest)) =
     Some (g (taken @ takeWhile P s) (dropWhile P s))"
  by (induction s arbitrary: taken) simp_all

lemma plus_total:
  "re_plus P s (\<lambda>cap rest. Some (g cap rest)) =
     (if takeWhile P s = [] then None else Some (g (takeWhile P s) (dropWhile P s)))"
  by (cases s) (simp_all add: re_plus_def star_from_total)

text \<open>
  A greedy re_star never has to give a character back when its continuation fails on
  every input that starts with a character of the class.
\<close>

lemma star_from_det:
  assumes "\<And>t c cs. P c \<Longrightarrow> k t (c # cs) = None"
  shows "re_star_from P taken s k = k (taken @ takeWhile P s) (dropWhile P s)"
proof (induction s arbitrary: taken)
  case Nil
  then show ?case by simp
next
  case (Cons c cs)
  show ?case
  proof (cases "P c")
    case True
    show ?thesis
    proof (cases "k (taken @ c # takeWhile P cs) (dropWhile P cs)")
      case None
      with True Cons.IH [of "taken @ [c]"] assms [OF True] show ?thesis by simp
    next
      case (Some r)
      with True Cons.IH [of "taken @ [c]"] show ?thesis by simp
    qed
  next
    case False
    then show ?thesis by simp
  qed
qed

text \<open>
  The end of both patterns, \<^verbatim>\<open>\s*(.+)\<close>: white space, then the capture. Here the
  re_star does give back: when only white space is left, the capture starts at the last
  white space character that is not a line terminator.
\<close>

definition tail_capture :: "jsstring \<Rightarrow> jsstring option" where
  "tail_capture r = re_star is_space r (\<lambda>_ r'. re_plus dot r' (\<lambda>cap _. Some cap))"

lemma star_from_tail_map:
  "re_star_from is_space taken r (\<lambda>_ r'. re_plus dot r' (\<lambda>cap _. Some (f cap))) =
     map_option f (tail_capture r)"
proof -
  have "re_star_from is_space taken r (\<lambda>_ r'. re_plus dot r' (\<lambda>cap _. Some (f cap))) =
          map_option f (re_star_from is_space taken' r (\<lambda>_ r'. re_plus dot r' (\<lambda>cap _. Some cap)))"
    for taken taken'
  proof (induction r arbitrary: taken taken')
    case Nil
    then show ?case by (simp add: re_plus_def)
  next
    case (Cons c cs)
    have p: "re_plus dot (c # cs) (\<lambda>cap _. Some (f cap)) =
             map_option f (re_plus dot (c # cs) (\<lambda>cap _. Some cap))"
      by (simp add: plus_total)
    show ?case
    proof (cases "is_space c")
      case True
      show ?thesis
        using True p Cons.IH [of "taken @ [c]" "taken' @ [c]"]
        by (cases "re_star_from is_space (taken' @ [c]) cs (\<lambda>_ r'. re_plus dot r' (\<lambda>cap _. Some cap))")
          simp_all
    next
      case False
      with p show ?thesis by simp
    qed
  qed
  then show ?thesis by (simp add: tail_capture_def re_star_def)
qed

lemma tail_capture_Nil [simp]: "tail_capture [] = None"
  by (simp add: tail_capture_def re_star_def re_plus_def)

lemma tail_capture_Cons:
  "tail_capture (c # cs) =
     (if is_space c
      then (case tail_capture cs of
              Some cap \<Rightarrow> Some cap
            | None \<Rightarrow> if dot c then Some (c # takeWhile dot cs) else None)
      else Some (c # takeWhile dot cs))"
proof -
  have t: "re_star_from is_space [c] cs (\<lambda>_ r'. re_plus dot r' (\<lambda>cap _. Some cap)) = tail_capture cs"
    using star_from_tail_map [of "[c]" cs "\<lambda>x. x"] by (simp add: option.map_ident)
  have p: "re_plus dot (c # cs) (\<lambda>cap _. Some cap) = (if dot c then Some (c # takeWhile dot cs) else None)"
    by (simp add: plus_total)
  show ?thesis
  proof (cases "is_space c")
    case True
    then show ?thesis
      unfolding tail_capture_def re_star_def
      by (cases "re_star_from is_space [] cs (\<lambda>_ r'. re_plus dot r' (\<lambda>cap _. Some cap))")
        (simp_all add: t [unfolded tail_capture_def re_star_def] p)
  next
    case False
    with not_space_dot [of c] show ?thesis
      by (simp add: tail_capture_def re_star_def p)
  qed
qed

lemma trim_Nil [simp]: "trim [] = []"
  by (simp add: trim_def)

lemma trim_all_space: "list_all is_space s \<Longrightarrow> trim s = []"
  by (auto simp: trim_def list_all_iff dest: set_dropWhileD)

lemma trim_dropWhile [simp]: "trim (dropWhile is_space s) = trim s"
  by (simp add: trim_def)

lemma no_text_all_space: "\<not> list_ex dot s \<Longrightarrow> list_all is_space s"
  using line_terminator_is_space by (auto simp: list_ex_iff list_all_iff dot_def)

lemma no_text_takeWhile: "\<not> list_ex dot s \<Longrightarrow> takeWhile dot s = []"
  by (cases s) (auto simp: list_ex_iff)

lemma tail_capture_None: "tail_capture r = None \<longleftrightarrow> \<not> list_ex dot r"
proof (induction r)
  case Nil
  then show ?case by simp
next
  case (Cons c cs)
  then show ?case
    using not_space_dot [of c]
    by (auto simp: tail_capture_Cons split: option.splits)
qed

lemma tail_capture_Some:
  "tail_capture r = Some cap \<Longrightarrow> trim cap = trim (takeWhile dot (dropWhile is_space r))"
proof (induction r)
  case Nil
  then show ?case by simp
next
  case (Cons c cs)
  show ?case
  proof (cases "is_space c")
    case False
    with Cons.prems not_space_dot [of c] show ?thesis
      by (simp add: tail_capture_Cons)
  next
    case True
    show ?thesis
    proof (cases "tail_capture cs")
      case (Some cap')
      with True Cons.prems have "cap' = cap" by (simp add: tail_capture_Cons)
      with Cons.IH Some True show ?thesis by simp
    next
      case None
      then have n: "\<not> list_ex dot cs" by (simp add: tail_capture_None)
      from None True Cons.prems have "cap = c # takeWhile dot cs"
        by (simp add: tail_capture_Cons split: if_splits)
      with no_text_takeWhile [OF n] True have "trim cap = []"
        by (simp add: trim_all_space)
      moreover have "trim (takeWhile dot (dropWhile is_space (c # cs))) = []"
      proof -
        from no_text_all_space [OF n] True have "dropWhile is_space (c # cs) = []"
          by (simp add: list_all_iff)
        then show ?thesis by (simp only: takeWhile.simps trim_Nil)
      qed
      ultimately show ?thesis by simp
    qed
  qed
qed


lemma re_star_det:
  assumes "\<And>t c cs. P c \<Longrightarrow> k t (c # cs) = None"
  shows "re_star P s k = k (takeWhile P s) (dropWhile P s)"
  unfolding re_star_def using star_from_det [of P k "[]" s, OF assms] by simp

lemma re_star_tail:
  "re_star is_space r (\<lambda>_ r'. re_plus dot r' (\<lambda>cap _. Some (f cap))) = map_option f (tail_capture r)"
  unfolding re_star_def by (rule star_from_tail_map)

lemma space_not_mark: "is_space c \<Longrightarrow> c \<noteq> 45 \<and> c \<noteq> 42 \<and> c \<noteq> 91 \<and> c \<noteq> 35"
  by (auto simp: is_space_def)

lemma checkMatch_eq:
  "checkMatch line =
     (case checklist_parts line of
        None \<Rightarrow> None
      | Some (mark, r) \<Rightarrow> map_option (\<lambda>cap. (mark, cap)) (tail_capture r))"
proof -
  define k3 where "k3 = (\<lambda>(t :: jsstring) r3.
     re_chr (\<lambda>c. c = 91) r3 (\<lambda>_ r4.
     re_chr (\<lambda>c. c = 32 \<or> c = 120 \<or> c = 88) r4 (\<lambda>mark r5.
     re_chr (\<lambda>c. c = 93) r5 (\<lambda>_ r6.
     map_option (\<lambda>cap. (mark, cap)) (tail_capture r6)))))"
  define k1 where "k1 = (\<lambda>(t :: jsstring) r1.
     re_chr (\<lambda>c. c = 45 \<or> c = 42) r1 (\<lambda>_ r2. re_star is_space r2 k3))"
  have c: "checkMatch line = re_star is_space line k1"
    unfolding checkMatch_def k1_def k3_def by (simp only: re_star_tail)
  have k3: "k3 t (c # cs) = None" if "is_space c" for t c cs
    using space_not_mark [OF that] by (simp add: k3_def re_chr_def)
  have k1: "k1 t (c # cs) = None" if "is_space c" for t c cs
    using space_not_mark [OF that] by (simp add: k1_def re_chr_def)
  have s3: "re_star is_space r2 k3 = k3 (takeWhile is_space r2) (dropWhile is_space r2)" for r2
    by (rule re_star_det) (rule k3)
  have s1: "re_star is_space line k1 = k1 (takeWhile is_space line) (dropWhile is_space line)"
    by (rule re_star_det) (rule k1)
  have k1': "k1 t r1 = re_chr (\<lambda>c. c = 45 \<or> c = 42) r1
               (\<lambda>_ r2. k3 (takeWhile is_space r2) (dropWhile is_space r2))" for t r1
    unfolding k1_def by (simp only: s3)
  show ?thesis
    unfolding c s1 k1'
    by (simp add: k3_def re_chr_def checklist_parts_def del: dropWhile_eq_Nil_conv
        split: list.splits)
qed


lemma lower_mark: "m = 32 \<or> m = 120 \<or> m = 88 \<Longrightarrow> (toLowerCase [m] = [120]) = (m = 120 \<or> m = 88)"
  by (auto simp: toLowerCase_def lower_unit_def)

lemma checklist_parts_mark: "checklist_parts line = Some (m, r) \<Longrightarrow> m = 32 \<or> m = 120 \<or> m = 88"
  by (auto simp: checklist_parts_def split: list.splits if_splits)

lemma task_line_parts:
  "task_line line =
     (case checklist_parts line of None \<Rightarrow> False | Some (mark, r) \<Rightarrow> list_ex dot r)"
proof (cases "checklist_parts line")
  case None
  then show ?thesis by (simp add: task_line_def checkMatch_eq)
next
  case (Some mr)
  obtain m r where mr: "mr = (m, r)" by (cases mr)
  with Some tail_capture_None [of r] show ?thesis
    by (cases "tail_capture r") (simp_all add: task_line_def checkMatch_eq)
qed

lemma checkMatch_None: "checkMatch line = None \<longleftrightarrow> \<not> task_line line"
  by (cases "checkMatch line") (simp_all add: task_line_def)

lemma task_line_iff: "task_line line = (well_formed line \<or> blank_item line)"
  using not_space_dot
  by (auto simp: task_line_parts well_formed_def blank_item_def list_ex_iff list_all_iff
      split: option.splits)

lemma blank_item_not_well_formed: "blank_item line \<Longrightarrow> \<not> well_formed line"
  by (auto simp: well_formed_def blank_item_def list_ex_iff list_all_iff split: option.splits)

lemma checkMatch_Some:
  assumes "checkMatch line = Some (m, cap)"
  shows "task_line line \<and> (toLowerCase [m] = [120]) = bracket_checked line \<and>
         trim cap = free_text line"
proof -
  from assms obtain r where p: "checklist_parts line = Some (m, r)" and t: "tail_capture r = Some cap"
    by (auto simp: checkMatch_eq split: option.splits)
  from t have "list_ex dot r" using tail_capture_None [of r] by simp
  with p tail_capture_Some [OF t] lower_mark [OF checklist_parts_mark [OF p]] show ?thesis
    by (simp add: task_line_parts bracket_checked_def free_text_def)
qed

lemma parse_lines_tasks:
  "map (\<lambda>t. (pt_done t, pt_name t)) (parse_lines h ls) =
     map (\<lambda>l. (bracket_checked l, free_text l)) (filter task_line ls)"
proof (induction ls arbitrary: h)
  case Nil
  then show ?case by simp
next
  case (Cons l ls)
  show ?case
  proof (cases "checkMatch l")
    case None
    with Cons.IH show ?thesis
      using checkMatch_None [of l] by (simp add: Let_def)
  next
    case (Some mc)
    obtain m cap where mc: "mc = (m, cap)" by (cases mc)
    from checkMatch_Some [OF Some [unfolded mc]] Some mc Cons.IH show ?thesis
      by (simp add: Let_def)
  qed
qed

lemma js_split_Nil: "js_split sep [] = [[]]"
  by simp

lemma not_task_line_Nil: "\<not> task_line []"
  by (simp add: task_line_parts checklist_parts_def)

lemma blank_item_free_text:
  assumes "blank_item line"
  shows "free_text line = []"
proof -
  from assms obtain m r where p: "checklist_parts line = Some (m, r)" and s: "list_all is_space r"
    by (auto simp: blank_item_def split: option.splits)
  from s have "dropWhile is_space r = []" by (simp add: list_all_iff)
  with p show ?thesis by (simp add: free_text_def del: dropWhile_eq_Nil_conv)
qed

lemma length_filter_disj:
  "(\<And>x. Q x \<Longrightarrow> \<not> P x) \<Longrightarrow>
     length (filter (\<lambda>x. P x \<or> Q x) xs) = length (filter P xs) + length (filter Q xs)"
  by (induction xs) auto

lemma free_text_no_terminator:
  assumes "checklist_parts line = Some (m, r)" "list_all dot r"
  shows "free_text line = trim r"
proof -
  from assms(2) have eq: "takeWhile dot (dropWhile is_space r) = dropWhile is_space r"
    by (auto simp: list_all_iff dest: set_dropWhileD)
  show ?thesis
    by (simp only: free_text_def assms(1) option.case prod.case eq trim_dropWhile)
qed



text \<open>
  A bounded greedy repetition, when the continuation fails on every input that starts
  with a character of the class: it succeeds only if no more than the bound are there.
\<close>

lemma upto_from_det:
  "(\<And>t c cs. P c \<Longrightarrow> k t (c # cs) = None) \<Longrightarrow>
   re_upto_from n P taken s k =
     (if length (takeWhile P s) \<le> n then k (taken @ takeWhile P s) (dropWhile P s) else None)"
proof (induction n P taken s k rule: re_upto_from.induct)
  case (1 P taken s k)
  show ?case
  proof (cases s)
    case Nil
    then show ?thesis by simp
  next
    case (Cons c cs)
    with "1.prems" [of c taken cs] show ?thesis by auto
  qed
next
  case (2 n P taken k)
  then show ?case by simp
next
  case (3 n P taken c cs k)
  show ?case
  proof (cases "P c")
    case False
    then show ?thesis by simp
  next
    case True
    note ih = "3.IH" [OF True "3.prems"]
    note fail = "3.prems" [OF True, of taken cs]
    show ?thesis
    proof (cases "length (takeWhile P cs) \<le> n")
      case le: True
      show ?thesis
      proof (cases "k (taken @ c # takeWhile P cs) (dropWhile P cs)")
        case None
        with True le ih fail show ?thesis by simp
      next
        case (Some r)
        with True le ih show ?thesis by simp
      qed
    next
      case False
      with True ih fail show ?thesis by simp
    qed
  qed
qed

lemma re_upto_det:
  assumes "\<And>t c cs. P c \<Longrightarrow> k t (c # cs) = None"
  shows "re_upto n P s k =
           (if length (takeWhile P s) \<le> n then k (takeWhile P s) (dropWhile P s) else None)"
  unfolding re_upto_def using upto_from_det [of P k n "[]" s, OF assms] by simp

lemma re_plus_tail:
  "re_plus is_space r (\<lambda>_ r'. re_plus dot r' (\<lambda>cap _. Some (f cap))) =
     (case r of [] \<Rightarrow> None | c # cs \<Rightarrow> if is_space c then map_option f (tail_capture cs) else None)"
  by (cases r) (simp_all add: re_plus_def [of is_space] star_from_tail_map)

lemma headingMatch_eq:
  "headingMatch line =
     (let hashes = takeWhile (\<lambda>c. c = 35) line; r = dropWhile (\<lambda>c. c = 35) line in
      if 1 \<le> length hashes \<and> length hashes \<le> 3 \<and> r \<noteq> [] \<and> is_space (hd r)
      then tail_capture (tl r) else None)"
proof -
  define k2 where "k2 = (\<lambda>(t :: jsstring) r2.
     case r2 of [] \<Rightarrow> None | c # cs \<Rightarrow> if is_space c then tail_capture cs else None)"
  have rp: "re_plus is_space r (\<lambda>_ r'. re_plus dot r' (\<lambda>cap _. Some cap)) =
              (case r of [] \<Rightarrow> None | c # cs \<Rightarrow> if is_space c then tail_capture cs else None)" for r
    using re_plus_tail [of r "\<lambda>x. x"] by (cases r) (simp_all add: option.map_ident)
  have h: "headingMatch line = re_chr (\<lambda>c. c = 35) line (\<lambda>_ r1. re_upto 2 (\<lambda>c. c = 35) r1 k2)"
    unfolding headingMatch_def k2_def by (simp only: rp)
  have k2: "k2 t (c # cs) = None" if "c = 35" for t c cs
    using space_not_mark [of c] that by (auto simp: k2_def)
  have u: "re_upto 2 (\<lambda>c. c = 35) r1 k2 =
             (if length (takeWhile (\<lambda>c. c = 35) r1) \<le> 2
              then k2 (takeWhile (\<lambda>c. c = 35) r1) (dropWhile (\<lambda>c. c = 35) r1) else None)" for r1
    by (rule re_upto_det) (rule k2)
  have hm: "headingMatch line =
      (case line of
         [] \<Rightarrow> None
       | c # cs \<Rightarrow>
           if c = 35
           then (if length (takeWhile (\<lambda>c. c = 35) cs) \<le> 2
                 then k2 (takeWhile (\<lambda>c. c = 35) cs) (dropWhile (\<lambda>c. c = 35) cs) else None)
           else None)"
    unfolding h re_chr_def by (simp only: u)
  show ?thesis
    unfolding hm
    by (cases line)
      (auto simp: k2_def Let_def split: list.splits simp del: dropWhile_eq_Nil_conv)
qed

lemma heading_text_eq: "heading_text line = map_option trim (headingMatch line)"
proof -
  let ?r = "dropWhile (\<lambda>c. c = 35) line"
  show ?thesis
  proof (cases "1 \<le> length (takeWhile (\<lambda>c. c = 35) line) \<and> length (takeWhile (\<lambda>c. c = 35) line) \<le> 3 \<and>
                ?r \<noteq> [] \<and> is_space (hd ?r)")
    case False
    then show ?thesis
      by (auto simp: heading_text_def headingMatch_eq Let_def)
  next
    case True
    then obtain c cs where r: "?r = c # cs" and c: "is_space c"
      by (cases ?r) auto
    show ?thesis
    proof (cases "tail_capture cs")
      case None
      then have "\<not> list_ex dot cs" by (simp add: tail_capture_None)
      with True None r show ?thesis
        by (simp add: heading_text_def headingMatch_eq Let_def)
    next
      case (Some cap)
      then have "list_ex dot cs" using tail_capture_None [of cs] by simp
      with True Some r c tail_capture_Some [OF Some] show ?thesis
        by (simp add: heading_text_def headingMatch_eq Let_def)
    qed
  qed
qed


lemma current_heading_snoc:
  "current_heading dflt (seen @ [l]) =
     (case headingMatch l of Some cap \<Rightarrow> trim cap | None \<Rightarrow> current_heading dflt seen)"
  by (cases "headingMatch l")
    (simp_all add: current_heading_def List.map_filter_simps heading_text_eq)

lemma filter_upt_Suc:
  "filter P [0..<Suc n] = (if P 0 then [0] else []) @ map Suc (filter (\<lambda>i. P (Suc i)) [0..<n])"
proof -
  have "[0..<Suc n] = 0 # map Suc [0..<n]"
    by (simp add: upt_conv_Cons map_Suc_upt del: upt_Suc)
  then show ?thesis
    by (simp add: filter_map comp_def del: upt_Suc)
qed

lemma parse_lines_sections:
  "map pt_section (parse_lines (current_heading dflt seen) ls) =
     map (\<lambda>i. current_heading dflt (seen @ take (Suc i) ls))
       (filter (\<lambda>i. task_line (ls ! i)) [0..<length ls])"
proof (induction ls arbitrary: seen)
  case Nil
  then show ?case by simp
next
  case (Cons l ls)
  let ?h' = "current_heading dflt (seen @ [l])"
  have step: "map pt_section (parse_lines (current_heading dflt seen) (l # ls)) =
                (if task_line l then [?h'] else []) @ map pt_section (parse_lines ?h' ls)"
  proof (cases "checkMatch l")
    case None
    then show ?thesis
      using checkMatch_None [of l] by (simp add: Let_def current_heading_snoc)
  next
    case (Some mc)
    then have "task_line l" using checkMatch_None [of l] by simp
    with Some show ?thesis
      by (simp add: Let_def current_heading_snoc split: prod.splits)
  qed
  have "map (\<lambda>i. current_heading dflt (seen @ take (Suc i) (l # ls)))
          (filter (\<lambda>i. task_line ((l # ls) ! i)) [0..<length (l # ls)]) =
        (if task_line l then [?h'] else []) @
        map (\<lambda>i. current_heading dflt ((seen @ [l]) @ take (Suc i) ls))
          (filter (\<lambda>i. task_line (ls ! i)) [0..<length ls])"
    by (simp add: filter_upt_Suc comp_def del: upt_Suc)
  with step Cons.IH [of "seen @ [l]"] show ?case by simp
qed

lemma current_heading_Nil [simp]: "current_heading dflt [] = dflt"
  by (simp add: current_heading_def List.map_filter_simps)

text \<open>parsePRD keeps nothing while no section is open.\<close>

lemma prd_lines_closed:
  "list_all (\<lambda>l. headingMatch23 l = None) ls \<Longrightarrow> prd_lines f secs None ls = secs"
  by (induction ls) (simp_all add: flush_def split: option.splits prod.splits)

text \<open>The heading pattern of parsePRD, and the sections it opens.\<close>

lemma headingMatch23_eq:
  "headingMatch23 line =
     (let hashes = takeWhile (\<lambda>c. c = 35) line; r = dropWhile (\<lambda>c. c = 35) line in
      if 2 \<le> length hashes \<and> length hashes \<le> 3 \<and> r \<noteq> [] \<and> is_space (hd r)
      then map_option (\<lambda>cap. (length hashes, cap)) (tail_capture (tl r)) else None)"
proof -
  define k2 where "k2 = (\<lambda>(t :: jsstring) r2.
     case r2 of
       [] \<Rightarrow> None
     | c # cs \<Rightarrow> if is_space c then map_option (\<lambda>cap. (2 + length t, cap)) (tail_capture cs) else None)"
  have rp: "re_plus is_space r (\<lambda>_ r'. re_plus dot r' (\<lambda>cap _. Some (2 + length t, cap))) = k2 t r"
    for r and t :: jsstring
    using re_plus_tail [of r "\<lambda>cap. (2 + length t, cap)"] by (simp add: k2_def)
  have h: "headingMatch23 line =
             re_chr (\<lambda>c. c = 35) line (\<lambda>_ r1.
             re_chr (\<lambda>c. c = 35) r1 (\<lambda>_ r2. re_upto 1 (\<lambda>c. c = 35) r2 k2))"
    unfolding headingMatch23_def by (simp only: rp)
  have k2: "k2 t (c # cs) = None" if "c = 35" for t c cs
    using space_not_mark [of c] that by (auto simp: k2_def)
  have u: "re_upto 1 (\<lambda>c. c = 35) r2 k2 =
             (if length (takeWhile (\<lambda>c. c = 35) r2) \<le> 1
              then k2 (takeWhile (\<lambda>c. c = 35) r2) (dropWhile (\<lambda>c. c = 35) r2) else None)" for r2
    by (rule re_upto_det) (rule k2)
  have hm: "headingMatch23 line =
      (case line of
         [] \<Rightarrow> None
       | c # cs \<Rightarrow>
           if c = 35
           then (case cs of
                   [] \<Rightarrow> None
                 | c2 # cs2 \<Rightarrow>
                     if c2 = 35
                     then (if length (takeWhile (\<lambda>c. c = 35) cs2) \<le> 1
                           then k2 (takeWhile (\<lambda>c. c = 35) cs2) (dropWhile (\<lambda>c. c = 35) cs2)
                           else None)
                     else None)
           else None)"
    unfolding h re_chr_def by (simp only: u)
  show ?thesis
    unfolding hm
    by (cases line)
      (auto simp: k2_def Let_def split: list.splits simp del: dropWhile_eq_Nil_conv)
qed

lemma heading23_eq:
  "heading23 line = map_option (\<lambda>(level, cap). (level, trim cap)) (headingMatch23 line)"
proof -
  let ?r = "dropWhile (\<lambda>c. c = 35) line"
  let ?n = "length (takeWhile (\<lambda>c. c = 35) line)"
  show ?thesis
  proof (cases "2 \<le> ?n \<and> ?n \<le> 3 \<and> ?r \<noteq> [] \<and> is_space (hd ?r)")
    case False
    then show ?thesis
      by (auto simp: heading23_def headingMatch23_eq Let_def)
  next
    case True
    then obtain c cs where r: "?r = c # cs" and c: "is_space c"
      by (cases ?r) auto
    show ?thesis
    proof (cases "tail_capture cs")
      case None
      then have "\<not> list_ex dot cs" by (simp add: tail_capture_None)
      with True None r show ?thesis
        by (simp add: heading23_def headingMatch23_eq Let_def)
    next
      case (Some cap)
      then have "list_ex dot cs" using tail_capture_None [of cs] by simp
      with True Some r c tail_capture_Some [OF Some] show ?thesis
        by (simp add: heading23_def headingMatch23_eq Let_def)
    qed
  qed
qed

lemma heading23_None: "heading23 line = None \<longleftrightarrow> headingMatch23 line = None"
  by (simp add: heading23_eq)

lemma flush_Some:
  "flush secs (Some cur) = secs @ (if sec_tasks cur = [] then [] else [cur])"
  by (simp add: flush_def)

lemma prd_lines_step:
  assumes h: "headingMatch23 l = None"
  shows "prd_lines f secs (Some cur) (l # ls) =
       prd_lines f secs
         (Some (cur\<lparr>sec_tasks := sec_tasks cur @ (case line_task l of None \<Rightarrow> [] | Some t \<Rightarrow> [t])\<rparr>))
         ls"
proof (cases "checkMatch l")
  case None
  then have "\<not> (well_formed l \<or> blank_item l)"
    using checkMatch_None [of l] by (simp add: task_line_iff)
  with None h show ?thesis
    by (auto simp: line_task_def Let_def split: option.splits prod.splits)
next
  case (Some mc)
  obtain m cap where mc: "mc = (m, cap)" by (cases mc)
  from checkMatch_Some [OF Some [unfolded mc]]
  have "well_formed l \<or> blank_item l" "(toLowerCase [m] = [120]) = bracket_checked l"
    "trim cap = free_text l"
    by (simp_all add: task_line_iff)
  with Some mc h show ?thesis
    by (simp add: line_task_def)
qed

lemma prd_lines_sections:
  "prd_lines f secs None ls = secs @ sections_from f ls \<and>
   (\<forall>cur. prd_lines f secs (Some cur) ls =
      flush secs (Some (cur\<lparr>sec_tasks := sec_tasks cur @
        List.map_filter line_task (takeWhile (\<lambda>l. heading23 l = None) ls)\<rparr>)) @
      sections_from f (dropWhile (\<lambda>l. heading23 l = None) ls))"
proof (induction ls arbitrary: secs)
  case Nil
  show ?case by (simp add: flush_def List.map_filter_simps)
next
  case (Cons l ls)
  show ?case
  proof (cases "headingMatch23 l")
    case None
    then have n: "heading23 l = None" by (simp add: heading23_None)
    have a: "prd_lines f secs None (l # ls) = secs @ sections_from f (l # ls)"
      using None n Cons.IH [of secs] by (simp split: option.splits prod.splits)
    have b: "prd_lines f secs (Some cur) (l # ls) =
      flush secs (Some (cur\<lparr>sec_tasks := sec_tasks cur @
        List.map_filter line_task (takeWhile (\<lambda>l. heading23 l = None) (l # ls))\<rparr>)) @
      sections_from f (dropWhile (\<lambda>l. heading23 l = None) (l # ls))" for cur
      unfolding prd_lines_step [OF None]
      using n Cons.IH [of secs]
      by (cases "line_task l") (simp_all add: List.map_filter_simps)
    from a b show ?thesis by blast
  next
    case (Some lc)
    obtain level cap where lc: "lc = (level, cap)" by (cases lc)
    with Some have h: "heading23 l = Some (level, trim cap)" by (simp add: heading23_eq)
    let ?new = "\<lparr>sec_heading = trim cap, sec_level = level, sec_tasks = [], sec_source = f\<rparr>"
    have a: "prd_lines f secs None (l # ls) = secs @ sections_from f (l # ls)"
      using Some lc h Cons.IH [of secs]
      by (simp add: flush_Some Let_def) (simp add: flush_def)
    have b: "prd_lines f secs (Some cur) (l # ls) =
      flush secs (Some (cur\<lparr>sec_tasks := sec_tasks cur @
        List.map_filter line_task (takeWhile (\<lambda>l. heading23 l = None) (l # ls))\<rparr>)) @
      sections_from f (dropWhile (\<lambda>l. heading23 l = None) (l # ls))" for cur
      using Some lc h Cons.IH [of "flush secs (Some cur)"]
      by (simp add: flush_Some Let_def List.map_filter_simps)
    from a b show ?thesis by blast
  qed
qed

lemma parsePRD_sections: "parsePRD content fileName = sections_from fileName (js_split 10 content)"
  using prd_lines_sections [of fileName "[]" "js_split 10 content"]
  by (simp add: parsePRD_def)

subsection \<open>Evaluating the parsers on a given text\<close>

lemma re_upto_from_numeral:
  "re_upto_from (numeral n) P taken s k =
     (case s of
        [] \<Rightarrow> k taken []
      | c # cs \<Rightarrow>
          if P c
          then (case re_upto_from (pred_numeral n) P (taken @ [c]) cs k of
                  Some r \<Rightarrow> Some r
                | None \<Rightarrow> k taken (c # cs))
          else k taken (c # cs))"
  by (simp add: numeral_eq_Suc split: list.splits)

lemma upt_11: "[0..<11] = [0, 1, 2, 3, 4, 5, 6, 7, 8, 9, 10]"
  by (simp add: upt_rec)

lemmas parse_eval = js_def text_of.simps is_space_def dot_def is_line_terminator_def
  task_line_parts well_formed_def blank_item_def checklist_parts_def bracket_checked_def free_text_def trim_def
  heading_text_def heading23_def section_at_def current_heading_def List.map_filter_simps
  defaultHeading_def strip_md_def Let_def

lemmas match_eval = headingMatch_def headingMatch23_def checkMatch_def tableMatch_def
  re_chr_def re_star_def re_plus_def re_upto_def re_upto_from_numeral
  toLowerCase_def lower_unit_def parseChecklists_def parsePRD_def flush_def divider_def
  line_task_def


section \<open>Lemmas on the section merger\<close>

subsection \<open>The duplicate-free union\<close>

lemma first_seen_from_set:
  "set seen = set seen' \<Longrightarrow> first_seen_from seen ts = first_seen_from seen' ts"
proof (induction ts arbitrary: seen seen')
  case Nil
  then show ?case by simp
next
  case (Cons t ts)
  from Cons.prems have "set (prd_text t # seen) = set (prd_text t # seen')" by simp
  from Cons.IH [OF this] Cons.IH [OF Cons.prems] Cons.prems show ?case by simp
qed

lemma first_seen_from_distinct:
  "distinct (map prd_text ts) \<Longrightarrow>
     first_seen_from seen ts = filter (\<lambda>t. prd_text t \<notin> set seen) ts"
proof (induction ts arbitrary: seen)
  case Nil
  then show ?case by simp
next
  case (Cons t ts)
  from Cons.prems have d: "distinct (map prd_text ts)" and n: "prd_text t \<notin> prd_text ` set ts"
    by simp_all
  have "prd_text u \<noteq> prd_text t" if "u \<in> set ts" for u
    using n that by (metis imageI)
  then have "filter (\<lambda>u. prd_text u \<notin> set (prd_text t # seen)) ts =
        filter (\<lambda>u. prd_text u \<notin> set seen) ts"
    by (intro filter_cong) auto
  with Cons.IH [OF d] show ?case by simp
qed

lemma first_seen_from_append:
  "first_seen_from seen (xs @ ys) =
     first_seen_from seen xs @ first_seen_from (map prd_text xs @ seen) ys"
proof (induction xs arbitrary: seen)
  case Nil
  then show ?case by simp
next
  case (Cons x xs)
  show ?case
  proof (cases "prd_text x \<in> set seen")
    case True
    then have "set (map prd_text (x # xs) @ seen) = set (map prd_text xs @ seen)" by auto
    from first_seen_from_set [OF this] True Cons.IH [of seen] show ?thesis by simp
  next
    case False
    have "set (map prd_text (x # xs) @ seen) = set (map prd_text xs @ prd_text x # seen)" by auto
    from first_seen_from_set [OF this] False Cons.IH [of "prd_text x # seen"] show ?thesis by simp
  qed
qed

lemma first_seen_two:
  assumes "distinct (map prd_text xs)" "distinct (map prd_text ys)"
  shows "first_seen (xs @ ys) = xs @ filter (\<lambda>t. prd_text t \<notin> set (map prd_text xs)) ys"
  using assms by (simp add: first_seen_def first_seen_from_append first_seen_from_distinct)

lemma merge_into_keys:
  "map fst (merge_into key sec merged) =
     (if key \<in> set (map fst merged) then map fst merged else map fst merged @ [key])"
proof (induction merged)
  case Nil
  then show ?case by simp
next
  case (Cons e merged)
  obtain k existing where e: "e = (k, existing)" by (cases e)
  show ?case
  proof (cases "k = key")
    case True
    with e show ?thesis by simp
  next
    case False
    with e Cons.IH show ?thesis by simp
  qed
qed

lemma keys_of_slugs:
  "list_all (\<lambda>(k, s). k = g s) m \<Longrightarrow> map fst m = map g (map snd m)"
  by (induction m) auto

lemma foldl_merge_distinct:
  "distinct (map fst merged) \<Longrightarrow>
     distinct (map fst (foldl (\<lambda>merged sec. merge_into (f sec) sec merged) merged secs))"
proof (induction secs arbitrary: merged)
  case Nil
  then show ?case by simp
next
  case (Cons s secs)
  have "distinct (map fst (merge_into (f s) s merged))"
    using Cons.prems by (simp add: merge_into_keys)
  from Cons.IH [OF this] show ?case by simp
qed

lemma merge_into_slug:
  "list_all (\<lambda>(k, s). k = slugify (sec_heading s)) merged \<Longrightarrow>
   list_all (\<lambda>(k, s). k = slugify (sec_heading s)) (merge_into (slugify (sec_heading sec)) sec merged)"
  by (induction merged) auto

lemma foldl_merge_slug:
  "list_all (\<lambda>(k, s). k = slugify (sec_heading s)) merged \<Longrightarrow>
   list_all (\<lambda>(k, s). k = slugify (sec_heading s))
     (foldl (\<lambda>merged sec. merge_into (slugify (sec_heading sec)) sec merged) merged secs)"
proof (induction secs arbitrary: merged)
  case Nil
  then show ?case by simp
next
  case (Cons s secs)
  from Cons.IH [OF merge_into_slug [OF Cons.prems]] show ?case by simp
qed

lemma merge_sections_distinct:
  "distinct (map (\<lambda>s. slugify (sec_heading s)) (merge_sections secs))"
proof -
  let ?m = "foldl (\<lambda>merged sec. merge_into (slugify (sec_heading sec)) sec merged) [] secs"
  have d: "distinct (map fst ?m)"
    using foldl_merge_distinct [of "[]" "\<lambda>s. slugify (sec_heading s)" secs] by simp
  have "list_all (\<lambda>(k, s). k = slugify (sec_heading s)) ?m"
    using foldl_merge_slug [of "[]" secs] by simp
  from keys_of_slugs [OF this]
  have e: "map fst ?m = map (\<lambda>s. slugify (sec_heading s)) (map snd ?m)" .
  show ?thesis
    unfolding merge_sections_def using d unfolding e .
qed

subsection \<open>The sections of one key\<close>

lemma merge_into_filter:
  "filter (\<lambda>e. fst e = k) (merge_into key sec m) =
     (if key = k then merge_into k sec (filter (\<lambda>e. fst e = k) m)
      else filter (\<lambda>e. fst e = k) m)"
  by (induction m) auto

lemma foldl_merge_filter:
  "filter (\<lambda>e. fst e = k) (foldl (\<lambda>merged sec. merge_into (f sec) sec merged) m secs) =
     foldl (\<lambda>merged sec. merge_into (f sec) sec merged) (filter (\<lambda>e. fst e = k) m)
       (filter (\<lambda>s. f s = k) secs)"
proof (induction secs arbitrary: m)
  case Nil
  then show ?case by simp
next
  case (Cons s secs)
  show ?case
    using Cons.IH [of "merge_into (f s) s m"] by (simp add: merge_into_filter)
qed

lemma filter_snd_keys:
  "list_all (\<lambda>(k, s). k = g s) m \<Longrightarrow>
     filter (\<lambda>s. g s = k) (map snd m) = map snd (filter (\<lambda>e. fst e = k) m)"
  by (induction m) auto

lemma merge_sections_filter:
  "filter (\<lambda>s. slugify (sec_heading s) = k) (merge_sections secs) =
     map snd (foldl (\<lambda>merged sec. merge_into (slugify (sec_heading sec)) sec merged) []
       (filter (\<lambda>s. slugify (sec_heading s) = k) secs))"
proof -
  let ?m = "foldl (\<lambda>merged sec. merge_into (slugify (sec_heading sec)) sec merged) [] secs"
  have "list_all (\<lambda>(k, s). k = slugify (sec_heading s)) ?m"
    using foldl_merge_slug [of "[]" secs] by simp
  from filter_snd_keys [OF this, of k]
  show ?thesis
    unfolding merge_sections_def
    using foldl_merge_filter [of k "\<lambda>s. slugify (sec_heading s)" "[]" secs] by simp
qed

subsection \<open>Evaluating slugs\<close>

lemmas slug_eval = slugify_def strip_edges_def replace_runs_def slug_char_def is_space_def
  toLowerCase_def lower_unit_def js_def

lemma js_eq_iff: "js a = js b \<longleftrightarrow> a = b"
  by (simp add: js_def inj_map_eq_map inj_def)

lemma js_append: "js a @ js b = js (a @ b)"
  by (simp add: js_def)

section \<open>Lemmas on the aggregator\<close>

subsection \<open>The sort keeps the projects\<close>

lemma set_insert_sorted [simp]: "set (insert_sorted cmp x ys) = insert x (set ys)"
  by (induction ys) auto

lemma set_sort_with [simp]: "set (sort_with cmp xs) = set xs"
  by (induction xs) auto

lemma length_insert_sorted [simp]: "length (insert_sorted cmp x ys) = Suc (length ys)"
  by (induction ys) auto

lemma length_sort_with [simp]: "length (sort_with cmp xs) = length xs"
  by (induction xs) auto

subsection \<open>What the clock decides\<close>

text \<open>The clock is read for the days since the last push and for nothing else.\<close>

lemma buildProjectData_days:
  assumes "daysSinceUpdate now (r_pushedAt repo) = daysSinceUpdate now' (r_pushedAt repo)"
  shows "buildProjectData gh repo index now = buildProjectData gh repo index now'"
  unfolding buildProjectData_def assms ..

lemma buildProjectData_timeless:
  "map_sum id timeless (buildProjectData gh repo index now) =
   map_sum id timeless (buildProjectData gh repo index now')"
  by (simp add: buildProjectData_def timeless_def Let_def split: sum.splits)

lemma buildProjectData_fields:
  assumes "buildProjectData gh repo index now = Inr p"
  shows "gp_daysSinceUpdate p = daysSinceUpdate now (r_pushedAt repo)"
    and "gp_status p = status_of (daysSinceUpdate now (r_pushedAt repo))"
    and "gp_priority p = index"
  using assms by (auto simp add: buildProjectData_def Let_def split: sum.splits)

lemma map_filter_cong:
  "(\<And>x. x \<in> set xs \<Longrightarrow> f x = g x) \<Longrightarrow> List.map_filter f xs = List.map_filter g xs"
  by (induction xs) (simp_all add: List.map_filter_simps split: option.splits)

lemma build_batch_days:
  assumes "\<And>j. j < length batch \<Longrightarrow>
             daysSinceUpdate (clock (i + j)) (r_pushedAt (batch ! j)) =
             daysSinceUpdate (clock' (i + j)) (r_pushedAt (batch ! j))"
  shows "build_batch gh clock i batch = build_batch gh clock' i batch"
  unfolding build_batch_def
proof (rule map_filter_cong)
  fix j
  assume "j \<in> set [0..<length batch]"
  then have "j < length batch" by simp
  from buildProjectData_days [OF assms [OF this]]
  show "(case buildProjectData gh (batch ! j) (i + j) (clock (i + j)) of
           Inl e \<Rightarrow> None | Inr p \<Rightarrow> Some p) =
        (case buildProjectData gh (batch ! j) (i + j) (clock' (i + j)) of
           Inl e \<Rightarrow> None | Inr p \<Rightarrow> Some p)"
    by simp
qed

lemma map_filter_map_sum:
  "map f (List.map_filter (\<lambda>j. case g j of Inl e \<Rightarrow> None | Inr p \<Rightarrow> Some p) xs) =
   List.map_filter (\<lambda>j. case map_sum id f (g j) of Inl e \<Rightarrow> None | Inr p \<Rightarrow> Some p) xs"
  by (induction xs) (auto simp add: List.map_filter_simps split: sum.splits)

lemma build_batch_timeless:
  "map timeless (build_batch gh clock i batch) = map timeless (build_batch gh clock' i batch)"
  unfolding build_batch_def map_filter_map_sum
proof (rule map_filter_cong)
  fix j
  from buildProjectData_timeless [of gh "batch ! j" "i + j" "clock (i + j)" "clock' (i + j)"]
  show "(case map_sum id timeless (buildProjectData gh (batch ! j) (i + j) (clock (i + j))) of
           Inl e \<Rightarrow> None | Inr p \<Rightarrow> Some p) =
        (case map_sum id timeless (buildProjectData gh (batch ! j) (i + j) (clock' (i + j))) of
           Inl e \<Rightarrow> None | Inr p \<Rightarrow> Some p)"
    by simp
qed

lemma build_batches_timeless:
  "map timeless (build_batches gh clock repos i) = map timeless (build_batches gh clock' repos i)"
proof (induction gh clock repos i rule: build_batches.induct)
  case (1 gh clock repos i)
  show ?case
  proof (cases "i < length repos")
    case True
    from "1.IH" [OF True] build_batch_timeless [of gh clock i _ clock'] show ?thesis
      by (simp add: build_batches.simps [of _ _ repos i] True)
  next
    case False
    then show ?thesis by (simp add: build_batches.simps [of _ _ repos i])
  qed
qed

lemma build_batches_days:
  assumes "\<And>j. j < length repos \<Longrightarrow>
             daysSinceUpdate (clock j) (r_pushedAt (repos ! j)) =
             daysSinceUpdate (clock' j) (r_pushedAt (repos ! j))"
  shows "build_batches gh clock repos i = build_batches gh clock' repos i"
  using assms
proof (induction gh clock repos i rule: build_batches.induct)
  case (1 gh clock repos i)
  show ?case
  proof (cases "i < length repos")
    case True
    have "build_batch gh clock i (take batchSize (drop i repos)) =
          build_batch gh clock' i (take batchSize (drop i repos))"
    proof (rule build_batch_days)
      fix j
      assume "j < length (take batchSize (drop i repos))"
      then have "i + j < length repos" and "take batchSize (drop i repos) ! j = repos ! (i + j)"
        by auto
      with "1.prems" [of "i + j"]
      show "daysSinceUpdate (clock (i + j)) (r_pushedAt (take batchSize (drop i repos) ! j)) =
            daysSinceUpdate (clock' (i + j)) (r_pushedAt (take batchSize (drop i repos) ! j))"
        by simp
    qed
    with "1.IH" [OF True "1.prems"] show ?thesis
      by (simp add: build_batches.simps [of _ _ repos i] True)
  next
    case False
    then show ?thesis by (simp add: build_batches.simps [of _ _ repos i])
  qed
qed

lemma day_countsD:
  assumes "day_counts gh clock = day_counts gh clock'" and "j < length (repos_found gh)"
  shows "daysSinceUpdate (clock j) (r_pushedAt (repos_found gh ! j)) =
         daysSinceUpdate (clock' j) (r_pushedAt (repos_found gh ! j))"
proof -
  from assms(1) have "day_counts gh clock ! j = day_counts gh clock' ! j" by simp
  with assms(2) show ?thesis by (simp add: day_counts_def)
qed

lemma handler_days:
  assumes "day_counts gh clock = day_counts gh clock'"
  shows "except_lastUpdated (handler gh clock stamp) = except_lastUpdated (handler gh clock' stamp')"
proof (cases "getAllRepos gh")
  case (Inl e)
  then show ?thesis by (simp add: handler_def except_lastUpdated_def)
next
  case (Inr repos)
  then have "repos_found gh = repos" by (simp add: repos_found_def)
  with day_countsD [OF assms]
  have "build_batches gh clock repos 0 = build_batches gh clock' repos 0"
    by (intro build_batches_days) simp
  with Inr show ?thesis by (simp add: handler_def except_lastUpdated_def Let_def)
qed

subsection \<open>The projects up to their order\<close>

lemma mset_insert_sorted [simp]: "mset (insert_sorted cmp x ys) = add_mset x (mset ys)"
  by (induction ys) auto

lemma mset_sort_with [simp]: "mset (sort_with cmp xs) = mset xs"
  by (induction xs) auto

lemma mset_map_sort_with: "mset (map f (sort_with cmp xs)) = mset (map f xs)"
  by simp

lemma handler_clock_free:
  "clock_free (handler gh clock stamp) = clock_free (handler gh clock' stamp')"
proof (cases "getAllRepos gh")
  case (Inl e)
  then show ?thesis by (simp add: handler_def clock_free_def)
next
  case (Inr repos)
  have "mset (map timeless (sort_with compare_projects (build_batches gh clock repos 0))) =
        mset (map timeless (sort_with compare_projects (build_batches gh clock' repos 0)))"
    using arg_cong [OF build_batches_timeless [of gh clock repos 0 clock'], of mset]
    by (simp only: mset_map_sort_with)
  moreover have "length (build_batches gh clock repos 0) = length (build_batches gh clock' repos 0)"
    using arg_cong [OF build_batches_timeless [of gh clock repos 0 clock'], of length] by simp
  ultimately show ?thesis
    using Inr by (simp add: handler_def clock_free_def Let_def)
qed

subsection \<open>The two repositories\<close>

lemma example_repos:
  "getAllRepos github_example =
     Inr [listed ''fresh-notes'' (PushedAt (40 * day)), listed ''old_engine'' (PushedAt 0)]"
  by (simp add: getAllRepos_def GITHUB_SOURCES_def github_example_def ghFetch_def
      repos_of_source_def a_repo_def listed_def SKIP_REPOS_def js_def toLowerCase_def
      lower_unit_def)

lemma roadmap_repos:
  "getAllRepos github_roadmap = getAllRepos github_example"
  by (simp add: getAllRepos_def GITHUB_SOURCES_def github_roadmap_def github_example_def
      ghFetch_def)

lemma example_build:
  "buildProjectData github_example repo index now = Inr (bare_project repo index now)"
  by (simp add: buildProjectData_def github_example_def getFileTree_def ghFetch_def
      getRecentCommits_def lastCommit_def bare_project_def Let_def)

lemma example_batches:
  "build_batches github_example clock [r0, r1] 0 =
     [bare_project r0 0 (clock 0), bare_project r1 1 (clock 1)]"
  by (simp add: build_batches.simps [of _ _ _ 0] build_batches.simps [of _ _ _ 8]
      batchSize_def build_batch_def List.map_filter_simps example_build)

lemma example_projects:
  "projects_of (handler github_example clock stamp) =
     sort_with compare_projects
       [bare_project (listed ''fresh-notes'' (PushedAt (40 * day))) 0 (clock 0),
        bare_project (listed ''old_engine'' (PushedAt 0)) 1 (clock 1)]"
  by (simp add: handler_def projects_of_def example_repos example_batches Let_def)

lemma example_lower:
  "toLowerCase (js ''fresh-notes'') = js ''fresh-notes''"
  "toLowerCase (js ''old_engine'') = js ''old_engine''"
  by (simp_all add: js_def toLowerCase_def lower_unit_def)

lemmas order_eval = compare_projects_def number_or_def statusOrder_def status_of_def
  daysSinceUpdate_def day_def bare_project_def listed_def js_eq_iff example_lower

lemma projects_of_except [simp]: "projects_of (except_lastUpdated r) = projects_of r"
  by (cases r) (simp_all add: projects_of_def except_lastUpdated_def)

subsection \<open>Whole days\<close>

lemma div_greater_iff:
  fixes x d n :: int
  assumes "0 < d"
  shows "(n < x div d) = ((n + 1) * d \<le> x)"
proof
  assume "n < x div d"
  then have "n + 1 \<le> x div d" by simp
  with assms have "(n + 1) * d \<le> x div d * d" by (simp add: mult_right_mono)
  moreover have "x div d * d + x mod d = x" by simp
  moreover from assms have "0 \<le> x mod d" by simp
  ultimately show "(n + 1) * d \<le> x" by linarith
next
  assume "(n + 1) * d \<le> x"
  from zdiv_mono1 [OF this assms] assms have "n + 1 \<le> x div d" by simp
  then show "n < x div d" by simp
qed

lemma days_over: "(n < x div 86400000) = ((n + 1) * day \<le> (x::int))"
  using div_greater_iff [of 86400000 n x] by (simp add: day_def)

section \<open>Errors of the mutation commands\<close>

lemma exit_code_Failed: "exit_code (Failed e) \<noteq> 0"
  by simp

text \<open>
  C9. For a stored document in which the id matches no milestone, task or subtask, both
  Mark-done and Set-current end with \<open>NotFound\<close>, a non-zero exit code and the store
  as it was; with a missing or unreadable store both end with a non-zero exit code and
  nothing written; and when the id argument is missing (\<^verbatim>\<open>--mark-done\<close> or
  \<^verbatim>\<open>--set-current\<close> is the last argument or is followed by the empty string) the
  process exits non-zero before the store is read or written.
\<close>

theorem C9_errors_leave_store:
  "(findTaskById data taskId = None \<longrightarrow>
      cmdMarkDone stamp now taskId (Some data) = Failed NotFound \<and>
      cmdSetCurrent now taskId (Some data) = Failed NotFound \<and>
      exit_code (cmdMarkDone stamp now taskId (Some data)) \<noteq> 0 \<and>
      exit_code (cmdSetCurrent now taskId (Some data)) \<noteq> 0 \<and>
      store_after (Some data) (cmdMarkDone stamp now taskId (Some data)) = Some data \<and>
      store_after (Some data) (cmdSetCurrent now taskId (Some data)) = Some data) \<and>
   cmdMarkDone stamp now taskId None = Failed StoreUnreadable \<and>
   cmdSetCurrent now taskId None = Failed StoreUnreadable \<and>
   exit_code (cmdMarkDone stamp now taskId None) \<noteq> 0 \<and>
   exit_code (cmdSetCurrent now taskId None) \<noteq> 0 \<and>
   store_after None (cmdMarkDone stamp now taskId None) = None \<and>
   store_after None (cmdSetCurrent now taskId None) = None \<and>
   (''--help'' \<notin> set args \<and> ''-h'' \<notin> set args \<and> ''--status'' \<notin> set args \<and>
    (''--mark-done'' \<in> set args \<and> missing (arg_after ''--mark-done'' args) \<or>
     ''--mark-done'' \<notin> set args \<and> ''--set-current'' \<in> set args \<and>
       missing (arg_after ''--set-current'' args)) \<longrightarrow>
      main args stamp now store = Failed MissingArgument \<and>
      exit_code (main args stamp now store) \<noteq> 0 \<and>
      store_after store (main args stamp now store) = store)"
  by (auto simp: cmdMarkDone_def cmdSetCurrent_def loadData_def main_def)

theorem C9_errors_leave_store_witness:
  "findTaskById store_example ''l-s7'' = None \<and>
   cmdMarkDone ''t1'' ''t2'' ''l-s7'' (Some store_example) = Failed NotFound \<and>
   cmdSetCurrent ''t2'' ''l-s7'' (Some store_example) = Failed NotFound \<and>
   store_after (Some store_example) (cmdMarkDone ''t1'' ''t2'' ''l-s7'' (Some store_example)) =
     Some store_example \<and>
   cmdMarkDone ''t1'' ''t2'' ''l-s7'' None = Failed StoreUnreadable \<and>
   main [''--dry'', ''--set-current''] ''t1'' ''t2'' (Some store_example) = Failed MissingArgument \<and>
   main [''--mark-done'', []] ''t1'' ''t2'' (Some store_example) = Failed MissingArgument"
  using C9_errors_leave_store [of store_example "''l-s7''" "''t1''" "''t2''" "[''--dry'', ''--set-current'']" "Some store_example"]
    C9_errors_leave_store [of store_example "''l-s7''" "''t1''" "''t2''" "[''--mark-done'', []]" "Some store_example"]
  by (simp add: findTaskById_def store_example_def sub_def tsk_def mst_def missing_def)


section \<open>Mark-done on a subtask\<close>

text \<open>
  C10. For every document and every id that matches a subtask, the document Mark-done
  writes differs from the stored one at most in \<^verbatim>\<open>done\<close>, \<^verbatim>\<open>completedAt\<close> and
  \<^verbatim>\<open>current\<close> of the matched subtask, in \<^verbatim>\<open>current\<close> of the sibling right after
  it, and in \<^verbatim>\<open>meta.lastUpdated\<close>: with these blanked on both sides the two
  documents are equal, so every other field of every project, milestone, task and
  subtask, the \<^verbatim>\<open>current\<close> flags set elsewhere included, is written back unchanged.
\<close>

theorem C10_mark_done_frame:
  assumes "findTaskById data taskId = Some (FoundSubtask pi mi ti si)"
  shows "map_option (blank_changed pi mi ti si) (saved_doc (cmdMarkDone stamp now taskId (Some data))) =
           Some (blank_changed pi mi ti si data)"
proof -
  from findTaskById_subtaskD [OF assms] obtain ss where ss: "subtasks_at data pi mi ti = Some ss"
    by auto
  show ?thesis
    unfolding cmdMarkDone_subtask_eq [OF assms ss]
    by (simp add: saved_doc_def blank_changed_mark blank_changed_advance)
qed

theorem C10_mark_done_frame_witness:
  "findTaskById store_example ''l-s4'' = Some (FoundSubtask 0 0 1 0) \<and>
   map_option (blank_changed 0 0 1 0)
     (saved_doc (cmdMarkDone ''t1'' ''t2'' ''l-s4'' (Some store_example))) =
     Some (blank_changed 0 0 1 0 store_example) \<and>
   siblings_after (cmdMarkDone ''t1'' ''t2'' ''l-s4'' (Some store_example)) 0 0 1 =
     Some [(sub ''l-s4'' True None)\<lparr>s_completedAt := Some ''t1''\<rparr>,
           sub ''l-s5'' False (Some True), sub ''l-s6'' False None]"
proof -
  have f: "findTaskById store_example ''l-s4'' = Some (FoundSubtask 0 0 1 0)"
    by (simp add: findTaskById_def store_example_def sub_def tsk_def mst_def)
  have ss: "subtasks_at store_example 0 0 1 =
      Some [sub ''l-s4'' False (Some True), sub ''l-s5'' False None, sub ''l-s6'' False None]"
    by (simp add: subtasks_at_def task_at_def milestone_at_def nth_opt_def
        store_example_def tsk_def mst_def)
  have "siblings_after (cmdMarkDone ''t1'' ''t2'' ''l-s4'' (Some store_example)) 0 0 1 =
     Some [(sub ''l-s4'' True None)\<lparr>s_completedAt := Some ''t1''\<rparr>,
           sub ''l-s5'' False (Some True), sub ''l-s6'' False None]"
    using ss
    by (simp add: cmdMarkDone_subtask_eq [OF f ss] siblings_after_def saveData_def
        subtasks_at_upd_subtask upd_at_def sub_def)
  with f C10_mark_done_frame [OF f, of "''t1''" "''t2''"] show ?thesis
    by simp
qed

text \<open>
  C2, as the code has it. Mark-done on a subtask sets its \<^verbatim>\<open>done\<close>, stamps
  \<^verbatim>\<open>completedAt\<close> and removes its \<^verbatim>\<open>current\<close>; it sets \<^verbatim>\<open>current\<close> on the
  sibling right after it when there is one (whether or not that sibling is done), and
  it leaves every other sibling as it was. So the current siblings afterwards are the
  sibling right after the subtask and every other sibling that was current before.
  When no sibling other than the subtask and the one right after it was current
  before, exactly the sibling right after it is current afterwards if the subtask is
  not the last of its list, and none is if it is the last.
\<close>

theorem C2_mark_done_advance:
  assumes f: "findTaskById data taskId = Some (FoundSubtask pi mi ti si)"
    and ss: "subtasks_at data pi mi ti = Some ss"
  shows "map_option (\<lambda>ss'. ss' ! si) (siblings_after (cmdMarkDone stamp now taskId (Some data)) pi mi ti) =
           Some ((ss ! si)\<lparr>s_done := True, s_completedAt := Some stamp, s_current := None\<rparr>) \<and>
         map_option length (siblings_after (cmdMarkDone stamp now taskId (Some data)) pi mi ti) =
           Some (length ss) \<and>
         (Suc si < length ss \<longrightarrow>
            map_option (\<lambda>ss'. ss' ! Suc si)
              (siblings_after (cmdMarkDone stamp now taskId (Some data)) pi mi ti) =
              Some ((ss ! Suc si)\<lparr>s_current := Some True\<rparr>)) \<and>
         (\<forall>j<length ss. j \<noteq> si \<and> j \<noteq> Suc si \<longrightarrow>
            map_option (\<lambda>ss'. ss' ! j)
              (siblings_after (cmdMarkDone stamp now taskId (Some data)) pi mi ti) =
              Some (ss ! j)) \<and>
         map_option current_siblings
           (siblings_after (cmdMarkDone stamp now taskId (Some data)) pi mi ti) =
           Some (filter (\<lambda>j. j = Suc si \<or> j \<noteq> si \<and> s_current (ss ! j) = Some True)
                   [0..<length ss]) \<and>
         ((\<forall>j<length ss. j \<noteq> si \<and> j \<noteq> Suc si \<longrightarrow> s_current (ss ! j) \<noteq> Some True) \<longrightarrow>
            map_option current_siblings
              (siblings_after (cmdMarkDone stamp now taskId (Some data)) pi mi ti) =
              Some (if Suc si < length ss then [Suc si] else []))"
proof -
  let ?mk = "\<lambda>s. s\<lparr>s_done := True, s_completedAt := Some stamp, s_current := None\<rparr>"
  let ?cur = "\<lambda>s. s\<lparr>s_current := Some True\<rparr>"
  let ?ss' = "upd_at (Suc si) ?cur (upd_at si ?mk ss)"
  from findTaskById_subtaskD [OF f] ss have "findSubtask taskId ss = Some si"
    by auto
  from findSubtask_SomeD [OF this] have si: "si < length ss"
    by simp
  have after: "siblings_after (cmdMarkDone stamp now taskId (Some data)) pi mi ti = Some ?ss'"
  proof (cases "Suc si < length ss")
    case True
    then show ?thesis
      by (simp add: cmdMarkDone_subtask_eq [OF f ss] siblings_after_def saveData_def
          subtasks_at_upd_subtask ss subtasks_at_meta)
  next
    case False
    then have "?ss' = upd_at si ?mk ss" by (simp add: upd_at_def)
    with False show ?thesis
      by (simp add: cmdMarkDone_subtask_eq [OF f ss] siblings_after_def saveData_def
          subtasks_at_upd_subtask ss subtasks_at_meta)
  qed
  have nth: "?ss' ! j = (if j = Suc si then ?cur (ss ! j) else if j = si then ?mk (ss ! j) else ss ! j)"
    if "j < length ss" for j
    using that by (simp add: nth_upd_at)
  have a: "?ss' ! si = ?mk (ss ! si)"
    using nth [OF si] by simp
  have b: "?ss' ! Suc si = ?cur (ss ! Suc si)" if "Suc si < length ss"
    using nth [OF that] by simp
  have c: "?ss' ! j = ss ! j" if "j < length ss" "j \<noteq> si \<and> j \<noteq> Suc si" for j
    using nth [OF that(1)] that(2) by simp
  have cur: "(s_current (?ss' ! j) = Some True) =
               (j = Suc si \<or> j \<noteq> si \<and> s_current (ss ! j) = Some True)"
    if "j < length ss" for j
    using nth [OF that] by simp
  have d: "current_siblings ?ss' =
             filter (\<lambda>j. j = Suc si \<or> j \<noteq> si \<and> s_current (ss ! j) = Some True) [0..<length ss]"
    unfolding current_siblings_def
    using filter_upt_cong [of "length ss" "\<lambda>j. s_current (?ss' ! j) = Some True"
        "\<lambda>j. j = Suc si \<or> j \<noteq> si \<and> s_current (ss ! j) = Some True"] cur
    by simp
  have e: "current_siblings ?ss' = (if Suc si < length ss then [Suc si] else [])"
    if "\<forall>j<length ss. j \<noteq> si \<and> j \<noteq> Suc si \<longrightarrow> s_current (ss ! j) \<noteq> Some True"
  proof -
    have "(s_current (?ss' ! j) = Some True) = (j = Suc si)" if "j < length ?ss'" for j
      using cur [of j] that \<open>\<forall>j<length ss. j \<noteq> si \<and> j \<noteq> Suc si \<longrightarrow> s_current (ss ! j) \<noteq> Some True\<close>
      by auto
    from current_siblings_only [of ?ss' "Suc si", OF this] show ?thesis by simp
  qed
  from a b c d e show ?thesis
    unfolding after by simp
qed

theorem C2_mark_done_advance_witness:
  "findTaskById store_example ''l-s4'' = Some (FoundSubtask 0 0 1 0) \<and>
   subtasks_at store_example 0 0 1 =
     Some [sub ''l-s4'' False (Some True), sub ''l-s5'' False None, sub ''l-s6'' False None] \<and>
   map_option current_siblings
     (siblings_after (cmdMarkDone ''t1'' ''t2'' ''l-s4'' (Some store_example)) 0 0 1) = Some [1] \<and>
   map_option (\<lambda>ss'. ss' ! 0)
     (siblings_after (cmdMarkDone ''t1'' ''t2'' ''l-s4'' (Some store_example)) 0 0 1) =
     Some ((sub ''l-s4'' True None)\<lparr>s_completedAt := Some ''t1''\<rparr>) \<and>
   map_option (\<lambda>ss'. ss' ! 1)
     (siblings_after (cmdMarkDone ''t1'' ''t2'' ''l-s4'' (Some store_example)) 0 0 1) =
     Some (sub ''l-s5'' False (Some True)) \<and>
   map_option (\<lambda>ss'. ss' ! 2)
     (siblings_after (cmdMarkDone ''t1'' ''t2'' ''l-s4'' (Some store_example)) 0 0 1) =
     Some (sub ''l-s6'' False None)"
proof -
  let ?ss = "[sub ''l-s4'' False (Some True), sub ''l-s5'' False None, sub ''l-s6'' False None]"
  have f: "findTaskById store_example ''l-s4'' = Some (FoundSubtask 0 0 1 0)"
    by (simp add: findTaskById_def store_example_def sub_def tsk_def mst_def)
  have ss: "subtasks_at store_example 0 0 1 = Some ?ss"
    by (simp add: subtasks_at_def task_at_def milestone_at_def nth_opt_def
        store_example_def tsk_def mst_def)
  have others: "\<forall>j<length ?ss. j \<noteq> 0 \<and> j \<noteq> Suc 0 \<longrightarrow> s_current (?ss ! j) \<noteq> Some True"
    by (simp add: sub_def nth_Cons split: nat.splits)
  note t = C2_mark_done_advance [OF f ss, of "''t1''" "''t2''"]
  note t1 = t [THEN conjunct1]
  note t3 = t [THEN conjunct2, THEN conjunct2, THEN conjunct1]
  note t4 = t [THEN conjunct2, THEN conjunct2, THEN conjunct2, THEN conjunct1]
  note t6 = t [THEN conjunct2, THEN conjunct2, THEN conjunct2, THEN conjunct2, THEN conjunct2]
  from t6 others have c: "map_option current_siblings
     (siblings_after (cmdMarkDone ''t1'' ''t2'' ''l-s4'' (Some store_example)) 0 0 1) = Some [1]"
    by simp
  from t1 have a: "map_option (\<lambda>ss'. ss' ! 0)
     (siblings_after (cmdMarkDone ''t1'' ''t2'' ''l-s4'' (Some store_example)) 0 0 1) =
     Some ((sub ''l-s4'' True None)\<lparr>s_completedAt := Some ''t1''\<rparr>)"
    by (simp add: sub_def)
  from t3 have b: "map_option (\<lambda>ss'. ss' ! 1)
     (siblings_after (cmdMarkDone ''t1'' ''t2'' ''l-s4'' (Some store_example)) 0 0 1) =
     Some (sub ''l-s5'' False (Some True))"
    by (simp add: sub_def)
  from t4 [rule_format, of 2] have d: "map_option (\<lambda>ss'. ss' ! 2)
     (siblings_after (cmdMarkDone ''t1'' ''t2'' ''l-s4'' (Some store_example)) 0 0 1) =
     Some (sub ''l-s6'' False None)"
    by simp
  from f ss a b c d show ?thesis by blast
qed

text \<open>
  The claim as stated fails where another sibling is current: in the stored document
  \<^verbatim>\<open>l-s4\<close> is the current subtask and \<^verbatim>\<open>l-s5\<close>, \<^verbatim>\<open>l-s6\<close> are not done.
  Marking \<^verbatim>\<open>l-s5\<close> done leaves two current siblings (\<^verbatim>\<open>l-s4\<close> and \<^verbatim>\<open>l-s6\<close>),
  and marking the last one, \<^verbatim>\<open>l-s6\<close>, leaves \<^verbatim>\<open>l-s4\<close> current.
\<close>

theorem C2_mark_done_counterexample:
  "findTaskById store_example ''l-s5'' = Some (FoundSubtask 0 0 1 1) \<and>
   map_option (map s_done) (subtasks_at store_example 0 0 1) = Some [False, False, False] \<and>
   map_option current_siblings
     (siblings_after (cmdMarkDone ''t1'' ''t2'' ''l-s5'' (Some store_example)) 0 0 1) = Some [0, 2] \<and>
   findTaskById store_example ''l-s6'' = Some (FoundSubtask 0 0 1 2) \<and>
   map_option current_siblings
     (siblings_after (cmdMarkDone ''t1'' ''t2'' ''l-s6'' (Some store_example)) 0 0 1) = Some [0]"
proof -
  have f5: "findTaskById store_example ''l-s5'' = Some (FoundSubtask 0 0 1 1)"
    by (simp add: findTaskById_def store_example_def sub_def tsk_def mst_def)
  have f6: "findTaskById store_example ''l-s6'' = Some (FoundSubtask 0 0 1 2)"
    by (simp add: findTaskById_def store_example_def sub_def tsk_def mst_def)
  have ss: "subtasks_at store_example 0 0 1 =
      Some [sub ''l-s4'' False (Some True), sub ''l-s5'' False None, sub ''l-s6'' False None]"
    by (simp add: subtasks_at_def task_at_def milestone_at_def nth_opt_def
        store_example_def tsk_def mst_def)
  have upt: "[0..<3] = [0, 1, 2]"
    by (simp add: upt_rec)
  have a5: "map_option current_siblings
     (siblings_after (cmdMarkDone ''t1'' ''t2'' ''l-s5'' (Some store_example)) 0 0 1) = Some [0, 2]"
    using ss
    by (simp add: cmdMarkDone_subtask_eq [OF f5 ss] siblings_after_def saveData_def
        subtasks_at_upd_subtask upd_at_def current_siblings_def sub_def upt)
  have a6: "map_option current_siblings
     (siblings_after (cmdMarkDone ''t1'' ''t2'' ''l-s6'' (Some store_example)) 0 0 1) = Some [0]"
    using ss
    by (simp add: cmdMarkDone_subtask_eq [OF f6 ss] siblings_after_def saveData_def
        subtasks_at_upd_subtask upd_at_def current_siblings_def sub_def upt)
  from f5 f6 ss a5 a6 show ?thesis
    by (simp add: sub_def)
qed


section \<open>Set-current\<close>

text \<open>
  C1, as the code has it. Set-current on an id that matches a node clears every
  \<^verbatim>\<open>current\<close> flag of the document, sets \<^verbatim>\<open>current\<close> on the matched node and,
  for a task or subtask, on the milestone above it; the task above a matched subtask
  is not marked. So in the written document the matched node and the milestone above
  it are current, the only current task or subtask is the matched node, and the
  current milestones are the matched one or the one above the match and, for a task
  or subtask, one milestone in each other project that has a task or subtask with the
  same id. When the match is a milestone, or no other project has a task or subtask
  with the same id, there is exactly one current milestone.
\<close>

theorem C1_set_current:
  assumes f: "findTaskById data taskId = Some f"
  shows "map_option (\<lambda>d. item_current d f) (saved_doc (cmdSetCurrent now taskId (Some data))) =
           Some (Some (Some True)) \<and>
         map_option (\<lambda>d. owner_current d f) (saved_doc (cmdSetCurrent now taskId (Some data))) =
           Some (Some (Some True)) \<and>
         map_option current_tasks (saved_doc (cmdSetCurrent now taskId (Some data))) =
           Some (if found_type f = ''task'' then 1 else 0) \<and>
         map_option current_subtasks (saved_doc (cmdSetCurrent now taskId (Some data))) =
           Some (if found_type f = ''subtask'' then 1 else 0) \<and>
         map_option current_milestones (saved_doc (cmdSetCurrent now taskId (Some data))) =
           Some (if found_type f = ''milestone'' then 1 else 1 + shared_elsewhere taskId f data) \<and>
         (found_type f = ''milestone'' \<or> \<not> id_elsewhere taskId f data \<longrightarrow>
            map_option current_milestones (saved_doc (cmdSetCurrent now taskId (Some data))) = Some 1)"
proof -
  let ?pi = "found_project f" and ?mi = "found_milestone f"
  let ?m0 = "p_milestones (projects data ! ?pi) ! ?mi"
  let ?d' = "saveData now ((clearCurrentFlags data)\<lparr>projects :=
        upd_at ?pi
          (\<lambda>p. p\<lparr>p_milestones := upd_at ?mi (set_chain f)
                   (map clear_milestone (p_milestones (projects data ! ?pi)))\<rparr>)
          (map (marked_elsewhere taskId f) (projects data))\<rparr>)"
  have saved: "saved_doc (cmdSetCurrent now taskId (Some data)) = Some ?d'"
    by (rule cmdSetCurrent_general [OF f])
  from found_valid [OF f] have pi: "?pi < length (projects data)"
    and mi: "?mi < length (p_milestones (projects data ! ?pi))"
    by simp_all
  note count = count_in_general [of _ f data now taskId, OF _ pi mi]
  have at: "milestone_at ?d' ?pi ?mi = Some (set_chain f (clear_milestone ?m0))"
    using milestone_at_general [OF pi, of now ?mi "set_chain f" "marked_elsewhere taskId f"] mi
    by simp
  have ms: "current_milestones ?d' =
              (if found_type f = ''milestone'' then 1 else 1 + shared_elsewhere taskId f data)"
  proof -
    have "current_milestones ?d' =
            sum_list (map (\<lambda>p. if found_type f = ''milestone'' then 0
                             else if list_ex (hasTask taskId) (p_milestones p) then 1 else 0)
              (other_projects f data)) + 1"
      unfolding current_milestones_def by (subst count) (simp_all add: elsewhere_current)
    also have "\<dots> = (if found_type f = ''milestone'' then 1 else 1 + shared_elsewhere taskId f data)"
      by (simp add: shared_elsewhere_def sum_list_indicator)
    finally show ?thesis .
  qed
  have cur: "m_current (set_chain f m) = Some True" for m
    by (cases f) (simp_all add: set_chain_def)
  have owner: "owner_current ?d' f = Some (Some True)"
    unfolding owner_current_def at by (simp add: cur)
  have chain: "tasks_of_milestone (set_chain f (clear_milestone ?m0)) =
                 (if found_type f = ''task'' then 1 else 0) \<and>
               subtasks_of_milestone (set_chain f (clear_milestone ?m0)) =
                 (if found_type f = ''subtask'' then 1 else 0) \<and>
               item_current ?d' f = Some (Some True)"
  proof (cases f)
    case (FoundMilestone a b)
    with at counts_chain_milestone [of a b "p_milestones (projects data ! a) ! b"] show ?thesis
      by (simp add: item_current_def set_chain_def)
  next
    case (FoundTask a b ti)
    from findTaskById_taskD [OF f [unfolded FoundTask]] obtain ts
      where ts: "m_tasks (p_milestones (projects data ! a) ! b) = Some ts" "ti < length ts"
      by auto
    from ts at FoundTask have "item_current ?d' f = Some (Some True)"
      by (simp add: item_current_def task_at_def set_chain_def clear_milestone_def
          nth_opt_def nth_upd_at)
    with FoundTask counts_chain_task [OF ts, of a b] show ?thesis
      by simp
  next
    case (FoundSubtask a b ti si)
    from findTaskById_subtaskD2 [OF f [unfolded FoundSubtask]] obtain ts ss
      where ts: "m_tasks (p_milestones (projects data ! a) ! b) = Some ts" "ti < length ts"
        "t_subtasks (ts ! ti) = Some ss" "si < length ss"
      by auto
    from ts at FoundSubtask have "item_current ?d' f = Some (Some True)"
      by (simp add: item_current_def subtask_at_def subtasks_at_def task_at_def set_chain_def
          clear_milestone_def clear_task_def nth_opt_def nth_upd_at)
    with FoundSubtask counts_chain_subtask [OF ts, of a b] show ?thesis
      by simp
  qed
  have t0: "sum_list (map tasks_of_milestone (p_milestones (marked_elsewhere taskId f p))) = 0" for p
    by (rule elsewhere_below) (simp add: tasks_of_milestone_def, simp)
  have s0: "sum_list (map subtasks_of_milestone (p_milestones (marked_elsewhere taskId f p))) = 0" for p
    by (rule elsewhere_below) (simp add: subtasks_of_milestone_def, simp)
  have tasks: "current_tasks ?d' = (if found_type f = ''task'' then 1 else 0)"
    unfolding current_tasks_def using chain by (subst count) (simp_all add: t0)
  have subtasks: "current_subtasks ?d' = (if found_type f = ''subtask'' then 1 else 0)"
    unfolding current_subtasks_def using chain by (subst count) (simp_all add: s0)
  have one: "current_milestones ?d' = 1"
    if "found_type f = ''milestone'' \<or> \<not> id_elsewhere taskId f data"
    using that ms not_elsewhere_shared [of taskId f data] by auto
  from ms owner chain tasks subtasks one show ?thesis
    unfolding saved by simp
qed

theorem C1_set_current_witness:
  "findTaskById store_example ''l-s5'' = Some (FoundSubtask 0 0 1 1) \<and>
   \<not> id_elsewhere ''l-s5'' (FoundSubtask 0 0 1 1) store_example \<and>
   map_option current_milestones (saved_doc (cmdSetCurrent ''t2'' ''l-s5'' (Some store_example))) = Some 1 \<and>
   map_option current_tasks (saved_doc (cmdSetCurrent ''t2'' ''l-s5'' (Some store_example))) = Some 0 \<and>
   map_option current_subtasks (saved_doc (cmdSetCurrent ''t2'' ''l-s5'' (Some store_example))) = Some 1 \<and>
   map_option (\<lambda>d. item_current d (FoundSubtask 0 0 1 1))
     (saved_doc (cmdSetCurrent ''t2'' ''l-s5'' (Some store_example))) = Some (Some (Some True)) \<and>
   map_option (\<lambda>d. owner_current d (FoundSubtask 0 0 1 1))
     (saved_doc (cmdSetCurrent ''t2'' ''l-s5'' (Some store_example))) = Some (Some (Some True)) \<and>
   findTaskById store_shared_id ''my-app-m0-t0'' = Some (FoundTask 0 0 0) \<and>
   shared_elsewhere ''my-app-m0-t0'' (FoundTask 0 0 0) store_shared_id = 1 \<and>
   map_option current_tasks
     (saved_doc (cmdSetCurrent ''t2'' ''my-app-m0-t0'' (Some store_shared_id))) = Some 1 \<and>
   map_option (\<lambda>d. item_current d (FoundTask 0 0 0))
     (saved_doc (cmdSetCurrent ''t2'' ''my-app-m0-t0'' (Some store_shared_id))) =
     Some (Some (Some True))"
proof -
  have f: "findTaskById store_example ''l-s5'' = Some (FoundSubtask 0 0 1 1)"
    by (simp add: findTaskById_def store_example_def sub_def tsk_def mst_def)
  have ne: "\<not> id_elsewhere ''l-s5'' (FoundSubtask 0 0 1 1) store_example"
    by (simp add: id_elsewhere_def other_projects_def hasTask_def store_example_def tsk_def mst_def)
  have g: "findTaskById store_shared_id ''my-app-m0-t0'' = Some (FoundTask 0 0 0)"
    by (simp add: findTaskById_def store_shared_id_def tsk_def mst_def)
  have sh: "shared_elsewhere ''my-app-m0-t0'' (FoundTask 0 0 0) store_shared_id = 1"
    by (simp add: shared_elsewhere_def other_projects_def hasTask_def store_shared_id_def
        tsk_def mst_def)
  from C1_set_current [OF f, of "''t2''"] C1_set_current [OF g, of "''t2''"] f ne g sh show ?thesis
    by simp
qed

text \<open>
  The claim as stated asks for exactly one current node at each level the lookup
  chain passes through, and none elsewhere. Setting the subtask \<^verbatim>\<open>l-s5\<close> current
  leaves no current task, although the chain to it passes through the task
  \<^verbatim>\<open>l-t9\<close>. And where two projects carry the same task id, the loop that marks the
  parent milestone leaves its inner loop at the first hit but goes on with the next
  project, so two milestones are current afterwards.
\<close>

theorem C1_set_current_counterexample:
  "findTaskById store_example ''l-s5'' = Some (FoundSubtask 0 0 1 1) \<and>
   map_option t_id (task_at store_example 0 0 1) = Some ''l-t9'' \<and>
   map_option current_tasks (saved_doc (cmdSetCurrent ''t2'' ''l-s5'' (Some store_example))) = Some 0 \<and>
   findTaskById store_shared_id ''my-app-m0-t0'' = Some (FoundTask 0 0 0) \<and>
   map_option current_milestones
     (saved_doc (cmdSetCurrent ''t2'' ''my-app-m0-t0'' (Some store_shared_id))) = Some 2"
proof -
  have f: "findTaskById store_example ''l-s5'' = Some (FoundSubtask 0 0 1 1)"
    by (simp add: findTaskById_def store_example_def sub_def tsk_def mst_def)
  have t: "map_option t_id (task_at store_example 0 0 1) = Some ''l-t9''"
    by (simp add: task_at_def milestone_at_def nth_opt_def store_example_def tsk_def mst_def)
  have a: "map_option current_tasks (saved_doc (cmdSetCurrent ''t2'' ''l-s5'' (Some store_example))) = Some 0"
    unfolding cmdSetCurrent_found [OF f]
    by (simp add: saveData_def
        mark_parent_milestone_def set_item_current_def clearCurrentFlags_def
        upd_subtask_def upd_task_def upd_milestone_def hasTask_def
        clear_project_def clear_milestone_def clear_task_def clear_subtask_def
        current_tasks_def count_in_def tasks_of_milestone_def cur_t_def
        store_example_def sub_def tsk_def mst_def)
  have g: "findTaskById store_shared_id ''my-app-m0-t0'' = Some (FoundTask 0 0 0)"
    by (simp add: findTaskById_def store_shared_id_def tsk_def mst_def)
  have b: "map_option current_milestones
     (saved_doc (cmdSetCurrent ''t2'' ''my-app-m0-t0'' (Some store_shared_id))) = Some 2"
    unfolding cmdSetCurrent_found [OF g]
    by (simp add: saveData_def
        mark_parent_milestone_def set_item_current_def clearCurrentFlags_def
        upd_task_def upd_milestone_def hasTask_def
        clear_project_def clear_milestone_def clear_task_def
        current_milestones_def count_in_def cur_m_def
        store_shared_id_def tsk_def mst_def)
  from f t a g b show ?thesis by simp
qed

section \<open>The checklist parser\<close>

text \<open>
  C3, as the code has it. \<^verbatim>\<open>parseChecklists\<close> produces one record for each
  well-formed bullet checklist line (after leading white space a \<^verbatim>\<open>-\<close> or
  \<^verbatim>\<open>*\<close> bullet, then \<^verbatim>\<open>[ ]\<close>, \<^verbatim>\<open>[x]\<close> or \<^verbatim>\<open>[X]\<close>, then free text) and
  also one for each blank item (the bracket is followed by white space only, of which
  at least one character is not a line terminator), in the order of the lines; the
  done state of a record is true exactly when the bracket letter is \<^verbatim>\<open>x\<close> or
  \<^verbatim>\<open>X\<close>, and its text is the trimmed free text, which is empty for a blank item.
  Every other line produces nothing. So the number of records is the number of
  well-formed lines plus the number of blank items, N well-formed lines give exactly
  N records when the input has no blank item, and empty content gives the empty
  sequence. Where the text after the bracket has no line terminator in it, the trimmed
  free text is all of it, trimmed.
\<close>

theorem C3_bullet_lines:
  "map (\<lambda>t. (pt_done t, pt_name t)) (parseChecklists content fileName) =
     map (\<lambda>l. (bracket_checked l, free_text l))
       (filter (\<lambda>l. well_formed l \<or> blank_item l) (js_split 10 content)) \<and>
   length (parseChecklists content fileName) =
     length (filter well_formed (js_split 10 content)) +
     length (filter blank_item (js_split 10 content)) \<and>
   (\<not> list_ex blank_item (js_split 10 content) \<longrightarrow>
      map (\<lambda>t. (pt_done t, pt_name t)) (parseChecklists content fileName) =
        map (\<lambda>l. (bracket_checked l, free_text l)) (filter well_formed (js_split 10 content)) \<and>
      length (parseChecklists content fileName) =
        length (filter well_formed (js_split 10 content))) \<and>
   (blank_item line \<longrightarrow> \<not> well_formed line \<and> free_text line = []) \<and>
   parseChecklists [] fileName = [] \<and>
   (checklist_parts line = Some (m, r) \<and> list_all dot r \<longrightarrow> free_text line = trim r)"
proof -
  let ?ls = "js_split 10 content"
  have t: "task_line = (\<lambda>l. well_formed l \<or> blank_item l)"
    by (rule ext) (rule task_line_iff)
  have a: "map (\<lambda>t. (pt_done t, pt_name t)) (parseChecklists content fileName) =
     map (\<lambda>l. (bracket_checked l, free_text l)) (filter (\<lambda>l. well_formed l \<or> blank_item l) ?ls)"
    by (simp add: parseChecklists_def parse_lines_tasks t)
  from arg_cong [OF a, of length]
  have b: "length (parseChecklists content fileName) =
     length (filter well_formed ?ls) + length (filter blank_item ?ls)"
    by (simp add: length_filter_disj [of blank_item well_formed] blank_item_not_well_formed)
  have n: "filter (\<lambda>l. well_formed l \<or> blank_item l) ?ls = filter well_formed ?ls"
    if "\<not> list_ex blank_item ?ls"
    using that by (intro filter_cong refl) (auto simp: list_ex_iff)
  have c: "map (\<lambda>t. (pt_done t, pt_name t)) (parseChecklists content fileName) =
        map (\<lambda>l. (bracket_checked l, free_text l)) (filter well_formed ?ls) \<and>
      length (parseChecklists content fileName) = length (filter well_formed ?ls)"
    if "\<not> list_ex blank_item ?ls"
  proof -
    from a n [OF that]
    have "map (\<lambda>t. (pt_done t, pt_name t)) (parseChecklists content fileName) =
        map (\<lambda>l. (bracket_checked l, free_text l)) (filter well_formed ?ls)"
      by simp
    moreover from arg_cong [OF this, of length]
    have "length (parseChecklists content fileName) = length (filter well_formed ?ls)"
      by simp
    ultimately show ?thesis by simp
  qed
  have d: "parseChecklists [] fileName = []"
    using parse_lines_tasks [of "defaultHeading fileName" "[[]]"]
    by (simp add: parseChecklists_def not_task_line_Nil)
  from a b c d blank_item_not_well_formed blank_item_free_text free_text_no_terminator
  show ?thesis by blast
qed

theorem C3_bullet_lines_witness:
  "\<not> list_ex blank_item (js_split 10 roadmap_md) \<and>
   map (\<lambda>t. (pt_done t, pt_name t)) (parseChecklists roadmap_md (js ''ROADMAP.md'')) =
     [(False, js ''Kickoff''), (True, js ''A''), (False, js ''B''), (True, js ''C''), (True, js ''D'')] \<and>
   length (parseChecklists roadmap_md (js ''ROADMAP.md'')) = 5 \<and>
   blank_item (js ''- [x]  '') \<and> \<not> well_formed (js ''- [x]  '') \<and> free_text (js ''- [x]  '') = [] \<and>
   checklist_parts (js ''* [ ]   B  '') = Some (32, js ''   B  '') \<and>
   list_all dot (js ''   B  '') \<and>
   free_text (js ''* [ ]   B  '') = trim (js ''   B  '')"
proof -
  have nb: "\<not> list_ex blank_item (js_split 10 roadmap_md)"
    by (simp add: roadmap_md_def parse_eval)
  have rhs: "map (\<lambda>l. (bracket_checked l, free_text l)) (filter well_formed (js_split 10 roadmap_md)) =
     [(False, js ''Kickoff''), (True, js ''A''), (False, js ''B''), (True, js ''C''), (True, js ''D'')]"
    by (simp add: roadmap_md_def parse_eval)
  have n: "length (filter well_formed (js_split 10 roadmap_md)) = 5"
    by (simp add: roadmap_md_def parse_eval)
  have bl: "blank_item (js ''- [x]  '')"
    by (simp add: parse_eval)
  have p: "checklist_parts (js ''* [ ]   B  '') = Some (32, js ''   B  '')"
    by (simp add: parse_eval)
  have d: "list_all dot (js ''   B  '')"
    by (simp add: parse_eval)
  from C3_bullet_lines [of roadmap_md "js ''ROADMAP.md''" "js ''* [ ]   B  ''" 32 "js ''   B  ''"]
    C3_bullet_lines [of roadmap_md "js ''ROADMAP.md''" "js ''- [x]  ''"]
    nb rhs n bl p d show ?thesis
    by simp
qed

text \<open>
  The claim as stated fails on a blank item: the line \<^verbatim>\<open>- [ ]\<close> followed by one
  blank has no free text and is not well formed, yet the pattern matches it (the white
  space before the text may be empty, and the text may be the blank) and a record with
  an empty name is produced. The same line without the blank produces nothing.
\<close>

theorem C3_bullet_lines_counterexample:
  "filter well_formed (js_split 10 (js ''- [ ] '')) = [] \<and>
   map (\<lambda>t. (pt_done t, pt_name t)) (parseChecklists (js ''- [ ] '') (js ''TODO.md'')) =
     [(False, [])] \<and>
   parseChecklists (js ''- [ ]'') (js ''TODO.md'') = []"
  by (simp add: parse_eval match_eval)

text \<open>
  C8, as the code has it. In \<^verbatim>\<open>parseChecklists\<close> (both aggregators) a heading line
  of one to three levels sets the section of the checklist lines after it until the
  next heading, and a checklist line before any heading gets the default label made
  from the file name (\<^verbatim>\<open>.md\<close> removed, \<^verbatim>\<open>-\<close> and \<^verbatim>\<open>_\<close> replaced by spaces):
  the section of each record is the text of the nearest heading line at or before its
  line, or the default label. \<^verbatim>\<open>parsePRD\<close> is different by design: only a heading
  of two or three levels opens a section, which holds the tasks of the lines up to the
  next such heading, and a task line met while no section is open is dropped: the
  sections of a document are those of \<open>sections_from\<close>, the lines before the first
  such heading make no difference, and a document without such a heading gives no
  section at all.
\<close>

theorem C8_sections:
  "map pt_section (parseChecklists content fileName) =
     map (section_at (defaultHeading fileName) (js_split 10 content))
       (filter (\<lambda>i. well_formed (js_split 10 content ! i) \<or> blank_item (js_split 10 content ! i))
          [0..<length (js_split 10 content)]) \<and>
   heading_text line = map_option trim (headingMatch line) \<and>
   parsePRD content fileName = sections_from fileName (js_split 10 content) \<and>
   heading23 line = map_option (\<lambda>(level, cap). (level, trim cap)) (headingMatch23 line) \<and>
   (list_all (\<lambda>l. heading23 l = None) before \<longrightarrow>
      sections_from fileName (before @ lines) = sections_from fileName lines) \<and>
   (list_all (\<lambda>l. headingMatch23 l = None) (js_split 10 content) \<longrightarrow>
      parsePRD content fileName = [])"
proof -
  have a: "map pt_section (parseChecklists content fileName) =
     map (section_at (defaultHeading fileName) (js_split 10 content))
       (filter (\<lambda>i. well_formed (js_split 10 content ! i) \<or> blank_item (js_split 10 content ! i))
          [0..<length (js_split 10 content)])"
    using parse_lines_sections [of "defaultHeading fileName" "[]" "js_split 10 content"]
    by (simp add: parseChecklists_def section_at_def task_line_iff)
  have b: "sections_from fileName (before @ lines) = sections_from fileName lines"
    if "list_all (\<lambda>l. heading23 l = None) before"
    using that by (induction before) simp_all
  have c: "parsePRD content fileName = []"
    if "list_all (\<lambda>l. headingMatch23 l = None) (js_split 10 content)"
    using that by (simp add: parsePRD_def prd_lines_closed)
  from a b c heading_text_eq [of line] parsePRD_sections [of content fileName] heading23_eq [of line]
  show ?thesis by blast
qed

theorem C8_sections_witness:
  "map pt_section (parseChecklists roadmap_md (js ''docs/road-map_v2.MD'')) =
     [js ''docs/road map v2'', js ''Phase 1'', js ''Phase 1'', js ''Phase 1'', js ''Phase 2''] \<and>
   heading_text (js ''##   Phase 1 '') = Some (js ''Phase 1'') \<and>
   heading23 (js ''##   Phase 1 '') = Some (2, js ''Phase 1'') \<and>
   sections_from (js ''docs/ROADMAP.md'') (js_split 10 roadmap_md) =
     [\<lparr>sec_heading = js ''Phase 1'', sec_level = 2,
        sec_tasks = [\<lparr>prd_done = True, prd_text = js ''A''\<rparr>,
                     \<lparr>prd_done = False, prd_text = js ''B''\<rparr>,
                     \<lparr>prd_done = True, prd_text = js ''C''\<rparr>],
        sec_source = js ''docs/ROADMAP.md''\<rparr>,
      \<lparr>sec_heading = js ''Phase 2'', sec_level = 3,
        sec_tasks = [\<lparr>prd_done = True, prd_text = js ''D''\<rparr>],
        sec_source = js ''docs/ROADMAP.md''\<rparr>] \<and>
   list_all (\<lambda>l. heading23 l = None) [js ''- [ ] Kickoff'', js ''# Road map''] \<and>
   sections_from (js ''docs/ROADMAP.md'')
     ([js ''- [ ] Kickoff'', js ''# Road map''] @ [js ''## Phase 1'', js ''- [x] A'']) =
   sections_from (js ''docs/ROADMAP.md'') [js ''## Phase 1'', js ''- [x] A''] \<and>
   list_all (\<lambda>l. headingMatch23 l = None) (js_split 10 plain_md) \<and>
   parsePRD plain_md (js ''my-plan.md'') = []"
proof -
  have rhs: "map (section_at (defaultHeading (js ''docs/road-map_v2.MD'')) (js_split 10 roadmap_md))
       (filter (\<lambda>i. well_formed (js_split 10 roadmap_md ! i) \<or> blank_item (js_split 10 roadmap_md ! i))
          [0..<length (js_split 10 roadmap_md)]) =
     [js ''docs/road map v2'', js ''Phase 1'', js ''Phase 1'', js ''Phase 1'', js ''Phase 2'']"
    by (simp add: roadmap_md_def parse_eval upt_11)
  have h: "map_option trim (headingMatch (js ''##   Phase 1 '')) = Some (js ''Phase 1'')"
    by (simp add: parse_eval match_eval)
  have h23: "map_option (\<lambda>(level, cap). (level, trim cap)) (headingMatch23 (js ''##   Phase 1 '')) =
      Some (2, js ''Phase 1'')"
    by (simp add: parse_eval match_eval)
  have p: "parsePRD roadmap_md (js ''docs/ROADMAP.md'') =
     [\<lparr>sec_heading = js ''Phase 1'', sec_level = 2,
        sec_tasks = [\<lparr>prd_done = True, prd_text = js ''A''\<rparr>,
                     \<lparr>prd_done = False, prd_text = js ''B''\<rparr>,
                     \<lparr>prd_done = True, prd_text = js ''C''\<rparr>],
        sec_source = js ''docs/ROADMAP.md''\<rparr>,
      \<lparr>sec_heading = js ''Phase 2'', sec_level = 3,
        sec_tasks = [\<lparr>prd_done = True, prd_text = js ''D''\<rparr>],
        sec_source = js ''docs/ROADMAP.md''\<rparr>]"
    by (simp add: roadmap_md_def parse_eval match_eval)
  have b: "list_all (\<lambda>l. heading23 l = None) [js ''- [ ] Kickoff'', js ''# Road map'']"
    by (simp add: parse_eval)
  have l: "list_all (\<lambda>l. headingMatch23 l = None) (js_split 10 plain_md)"
    by (simp add: plain_md_def parse_eval match_eval)
  note t1 = C8_sections [of roadmap_md "js ''docs/road-map_v2.MD''" "js ''##   Phase 1 ''"]
  note t2 = C8_sections [of roadmap_md "js ''docs/ROADMAP.md''" _
      "[js ''- [ ] Kickoff'', js ''# Road map'']" "[js ''## Phase 1'', js ''- [x] A'']"]
  note t3 = C8_sections [of plain_md "js ''my-plan.md''"]
  from t1 have c1: "map pt_section (parseChecklists roadmap_md (js ''docs/road-map_v2.MD'')) =
     [js ''docs/road map v2'', js ''Phase 1'', js ''Phase 1'', js ''Phase 1'', js ''Phase 2'']"
    and c2: "heading_text (js ''##   Phase 1 '') = Some (js ''Phase 1'')"
    and c3: "heading23 (js ''##   Phase 1 '') = Some (2, js ''Phase 1'')"
    using rhs h h23 by simp_all
  from t2 p have c4: "sections_from (js ''docs/ROADMAP.md'') (js_split 10 roadmap_md) =
     [\<lparr>sec_heading = js ''Phase 1'', sec_level = 2,
        sec_tasks = [\<lparr>prd_done = True, prd_text = js ''A''\<rparr>,
                     \<lparr>prd_done = False, prd_text = js ''B''\<rparr>,
                     \<lparr>prd_done = True, prd_text = js ''C''\<rparr>],
        sec_source = js ''docs/ROADMAP.md''\<rparr>,
      \<lparr>sec_heading = js ''Phase 2'', sec_level = 3,
        sec_tasks = [\<lparr>prd_done = True, prd_text = js ''D''\<rparr>],
        sec_source = js ''docs/ROADMAP.md''\<rparr>]"
    by (simp only:)
  from t2 b have c5: "sections_from (js ''docs/ROADMAP.md'')
     ([js ''- [ ] Kickoff'', js ''# Road map''] @ [js ''## Phase 1'', js ''- [x] A'']) =
   sections_from (js ''docs/ROADMAP.md'') [js ''## Phase 1'', js ''- [x] A'']"
    by blast
  from t3 l have c6: "parsePRD plain_md (js ''my-plan.md'') = []"
    by blast
  from c1 c2 c3 c4 b c5 l c6 show ?thesis by blast
qed

text \<open>
  The claim as stated, for every variant of the parser, fails on \<^verbatim>\<open>parsePRD\<close>: a
  task line outside any heading is dropped instead of tagged with the default label,
  also when headings follow it, and a level-1 heading does not set the section.
  \<^verbatim>\<open>parseChecklists\<close> on the same documents tags the task with the default label and
  with the title.
\<close>

theorem C8_sections_counterexample:
  "parsePRD (js ''- [ ] ship it'') (js ''my-plan.md'') = [] \<and>
   map pt_section (parseChecklists (js ''- [ ] ship it'') (js ''my-plan.md'')) = [js ''my plan''] \<and>
   parsePRD plain_md (js ''my-plan.md'') = [] \<and>
   map pt_section (parseChecklists plain_md (js ''my-plan.md'')) = [js ''Title''] \<and>
   map (\<lambda>s. (sec_heading s, map prd_text (sec_tasks s))) (parsePRD roadmap_md (js ''ROADMAP.md'')) =
     [(js ''Phase 1'', [js ''A'', js ''B'', js ''C'']), (js ''Phase 2'', [js ''D''])] \<and>
   map (\<lambda>t. (pt_section t, pt_name t)) (parseChecklists roadmap_md (js ''ROADMAP.md'')) =
     [(js ''ROADMAP'', js ''Kickoff''), (js ''Phase 1'', js ''A''), (js ''Phase 1'', js ''B''),
      (js ''Phase 1'', js ''C''), (js ''Phase 2'', js ''D'')]"
  by (simp add: plain_md_def roadmap_md_def parse_eval match_eval)

section \<open>The section merger\<close>

text \<open>
  Claim C4, as the code has it. When exactly two of the parsed sections, \<open>s1\<close> before
  \<open>s2\<close>, have the slug \<open>k\<close>, the merger gives exactly one section with that slug: it is
  \<open>s1\<close> with the tasks of \<open>s2\<close> appended whose text is not the text of a task of \<open>s1\<close>,
  and with the source of \<open>s1\<close>, a comma and a blank, and the source of \<open>s2\<close>. When no text
  is repeated inside \<open>s1\<close> and none inside \<open>s2\<close>, its tasks are the tasks of both with
  exact-text duplicates removed, in first-seen order. No two sections of the result
  have the same slug.
\<close>

theorem C4_merge_two:
  assumes "filter (\<lambda>s. slugify (sec_heading s) = k) secs = [s1, s2]"
  shows "filter (\<lambda>s. slugify (sec_heading s) = k) (merge_sections secs) =
           [s1\<lparr>sec_tasks := sec_tasks s1 @
                  filter (\<lambda>t. prd_text t \<notin> set (map prd_text (sec_tasks s1))) (sec_tasks s2),
                sec_source := sec_source s1 @ js '', '' @ sec_source s2\<rparr>] \<and>
         (distinct (map prd_text (sec_tasks s1)) \<and> distinct (map prd_text (sec_tasks s2)) \<longrightarrow>
            map sec_tasks (filter (\<lambda>s. slugify (sec_heading s) = k) (merge_sections secs)) =
              [first_seen (sec_tasks s1 @ sec_tasks s2)]) \<and>
         distinct (map (\<lambda>s. slugify (sec_heading s)) (merge_sections secs))"
proof -
  have "s1 \<in> set (filter (\<lambda>s. slugify (sec_heading s) = k) secs)"
    and "s2 \<in> set (filter (\<lambda>s. slugify (sec_heading s) = k) secs)"
    unfolding assms by simp_all
  then have k: "slugify (sec_heading s1) = k" "slugify (sec_heading s2) = k"
    by simp_all
  have a: "filter (\<lambda>s. slugify (sec_heading s) = k) (merge_sections secs) =
           [s1\<lparr>sec_tasks := sec_tasks s1 @
                  filter (\<lambda>t. prd_text t \<notin> set (map prd_text (sec_tasks s1))) (sec_tasks s2),
                sec_source := sec_source s1 @ js '', '' @ sec_source s2\<rparr>]"
    unfolding merge_sections_filter assms using k by simp
  then have "map sec_tasks (filter (\<lambda>s. slugify (sec_heading s) = k) (merge_sections secs)) =
              [first_seen (sec_tasks s1 @ sec_tasks s2)]"
    if "distinct (map prd_text (sec_tasks s1))" "distinct (map prd_text (sec_tasks s2))"
    using first_seen_two [OF that] by simp
  with a merge_sections_distinct [of secs] show ?thesis by blast
qed

theorem C4_merge_two_witness:
  "filter (\<lambda>s. slugify (sec_heading s) = js ''setup-install'') prd_sections =
     [psection ''Setup & Install''
        [ptask True ''Clone the repo'', ptask False ''Run the installer''] ''PRD.md'',
      psection ''setup   install!''
        [ptask True ''Run the installer'', ptask False ''Add a lockfile''] ''docs/ROADMAP.md''] \<and>
   filter (\<lambda>s. slugify (sec_heading s) = js ''setup-install'') (merge_sections prd_sections) =
     [psection ''Setup & Install''
        [ptask True ''Clone the repo'', ptask False ''Run the installer'',
         ptask False ''Add a lockfile''] ''PRD.md, docs/ROADMAP.md''] \<and>
   first_seen [ptask True ''Clone the repo'', ptask False ''Run the installer'',
        ptask True ''Run the installer'', ptask False ''Add a lockfile''] =
     [ptask True ''Clone the repo'', ptask False ''Run the installer'',
      ptask False ''Add a lockfile'']"
proof -
  have s: "slugify (js ''Setup & Install'') = js ''setup-install''"
    "slugify (js ''setup   install!'') = js ''setup-install''"
    "slugify (js ''Usage'') = js ''usage''"
    by (simp_all add: slug_eval)
  have f: "filter (\<lambda>s. slugify (sec_heading s) = js ''setup-install'') prd_sections =
     [psection ''Setup & Install''
        [ptask True ''Clone the repo'', ptask False ''Run the installer''] ''PRD.md'',
      psection ''setup   install!''
        [ptask True ''Run the installer'', ptask False ''Add a lockfile''] ''docs/ROADMAP.md'']"
    by (simp add: prd_sections_def psection_def s js_eq_iff)
  have d: "distinct (map prd_text (sec_tasks (psection ''Setup & Install''
        [ptask True ''Clone the repo'', ptask False ''Run the installer''] ''PRD.md'')))"
    "distinct (map prd_text (sec_tasks (psection ''setup   install!''
        [ptask True ''Run the installer'', ptask False ''Add a lockfile''] ''docs/ROADMAP.md'')))"
    by (simp_all add: psection_def ptask_def js_eq_iff)
  from C4_merge_two [OF f] d f show ?thesis
    by (simp add: psection_def ptask_def js_eq_iff js_append first_seen_def)
qed

text \<open>
  The claim as stated fails when a document repeats a text inside one section:
  \<^verbatim>\<open>existingTexts\<close> is computed once, from the tasks the section had before the
  merge, so both copies are appended (and a text repeated inside the first section is
  never removed).
\<close>

theorem C4_merge_counterexample:
  "map (\<lambda>s. slugify (sec_heading s)) repeated_sections = [js ''setup'', js ''setup''] \<and>
   map sec_tasks (merge_sections repeated_sections) =
     [[ptask False ''Clone the repo'', ptask False ''Add a lockfile'', ptask True ''Add a lockfile'']] \<and>
   first_seen (concat (map sec_tasks repeated_sections)) =
     [ptask False ''Clone the repo'', ptask False ''Add a lockfile'']"
proof -
  have s: "slugify (js ''Setup'') = js ''setup''"
    by (simp add: slug_eval)
  show ?thesis
    by (simp add: repeated_sections_def merge_sections_def first_seen_def psection_def ptask_def
        s js_eq_iff)
qed

section \<open>The order of the projects\<close>

text \<open>
  C5. The comparison of \<^verbatim>\<open>handler\<close> reads the rank of a status with
  \<^verbatim>\<open>statusOrder[a.status] || 2\<close>. The rank of \<^verbatim>\<open>active\<close> is \<open>0\<close>, which
  \<^verbatim>\<open>||\<close> replaces by \<open>2\<close>, the rank of \<^verbatim>\<open>paused\<close>: an idle project sorts before an
  active one, against the comment above the comparison (active, then idle, then
  paused). GitHub lists \<^verbatim>\<open>fresh-notes\<close>, pushed 5 days before the request, and then
  \<^verbatim>\<open>old_engine\<close>, pushed 45 days before it; the response has the idle
  \<^verbatim>\<open>old_engine\<close> first.
\<close>

theorem C5_idle_before_active:
  "map r_name (repos_found github_example) = [js ''fresh-notes'', js ''old_engine''] \<and>
   day_counts github_example (\<lambda>i. 45 * day) = [Some (Number 5), Some (Number 45)] \<and>
   map (\<lambda>p. (gp_id p, gp_status p))
     (projects_of (handler github_example (\<lambda>i. 45 * day) (js ''2024-06-01T00:00:00.000Z''))) =
     [(js ''old_engine'', js ''idle''), (js ''fresh-notes'', js ''active'')]"
  by (simp add: example_projects example_repos repos_found_def day_counts_def order_eval)

section \<open>The status of a project\<close>

text \<open>
  C6. In the aggregator with discovery no repository has a configured status, and the
  status of a project follows the whole days since the last push: more than 90 days
  (91 days or more have passed) give \<^verbatim>\<open>paused\<close>, more than 30 give \<^verbatim>\<open>idle\<close>,
  and everything else, a repository never pushed included, gives \<^verbatim>\<open>active\<close>. In the
  aggregator with the fixed list every repository has a configured status,
  \<^verbatim>\<open>active\<close>, \<^verbatim>\<open>live\<close> or \<^verbatim>\<open>paused\<close>, and keeps it, except that a repository
  configured \<^verbatim>\<open>active\<close> and not pushed for more than 30 days is \<^verbatim>\<open>paused\<close>.
\<close>

theorem C6_status_derivation:
  assumes "buildProjectData gh repo index now = Inr p"
    and "(repoName, config) \<in> set PROJECT_CONFIG"
  shows "gp_status p =
           (case r_pushedAt repo of
              PushedAt t \<Rightarrow>
                if 91 * day \<le> now - t then js ''paused''
                else if 31 * day \<le> now - t then js ''idle''
                else js ''active''
            | _ \<Rightarrow> js ''active'') \<and>
         (\<exists>s. pc_status config = Some s \<and>
              s \<in> set [js ''active'', js ''live'', js ''paused''] \<and>
              configured_status config days =
                (if s = js ''active'' \<and> (case days of None \<Rightarrow> False | Some d \<Rightarrow> greater d 30)
                 then js ''paused'' else s))"
proof
  from buildProjectData_fields(2) [OF assms(1)]
  show "gp_status p =
           (case r_pushedAt repo of
              PushedAt t \<Rightarrow>
                if 91 * day \<le> now - t then js ''paused''
                else if 31 * day \<le> now - t then js ''idle''
                else js ''active''
            | _ \<Rightarrow> js ''active'')"
    using days_over [of 90] days_over [of 30]
    by (cases "r_pushedAt repo") (simp_all add: status_of_def daysSinceUpdate_def)
next
  from assms(2) obtain s where s: "pc_status config = Some s"
    "s \<in> set [js ''active'', js ''live'', js ''paused'']"
    by (auto simp add: PROJECT_CONFIG_def configured_def)
  then have "s \<noteq> []" by (auto simp add: js_def)
  with s show "\<exists>s. pc_status config = Some s \<and>
              s \<in> set [js ''active'', js ''live'', js ''paused''] \<and>
              configured_status config days =
                (if s = js ''active'' \<and> (case days of None \<Rightarrow> False | Some d \<Rightarrow> greater d 30)
                 then js ''paused'' else s)"
    by (auto simp add: configured_status_def)
qed

theorem C6_status_derivation_witness:
  "\<exists>p. buildProjectData github_example (listed ''old_engine'' (PushedAt 0)) 1 (45 * day) = Inr p \<and>
       gp_status p = js ''idle'' \<and>
       configured_status
         (configured ''Loomiverse'' ''AI Interactive Storytelling'' ''#8b5cf6'' 1 ''active''
            [''PRD.md'']) (Some (Number 45)) = js ''paused'' \<and>
       configured_status
         (configured ''Loomiverse'' ''AI Interactive Storytelling'' ''#8b5cf6'' 1 ''active''
            [''PRD.md'']) (Some (Number 30)) = js ''active''"
proof -
  have m: "(js ''Loomiverse-Online'',
       configured ''Loomiverse'' ''AI Interactive Storytelling'' ''#8b5cf6'' 1 ''active''
         [''PRD.md'']) \<in> set PROJECT_CONFIG"
    by (simp add: PROJECT_CONFIG_def)
  have c: "pc_status (configured ''Loomiverse'' ''AI Interactive Storytelling'' ''#8b5cf6'' 1
         ''active'' [''PRD.md'']) = Some (js ''active'')"
    by (simp add: configured_def)
  note b = example_build [of "listed ''old_engine'' (PushedAt 0)" 1 "45 * day"]
  from C6_status_derivation [OF b m, of "Some (Number 45)"]
    C6_status_derivation [OF b m, of "Some (Number 30)"] c
  show ?thesis
    by (simp add: example_build listed_def day_def)
qed

section \<open>Running the aggregator again\<close>

text \<open>
  C7, as the code has it. The answers of GitHub being the same, two runs of
  \<^verbatim>\<open>handler\<close> give the same failure, or documents with the same meta data but
  \<^verbatim>\<open>lastUpdated\<close> and the same projects but for their days since the last push,
  their status and their order: these three follow the clock. When the two runs count
  the same whole days since the last push for every repository, the two documents are
  equal but for \<^verbatim>\<open>lastUpdated\<close>.
\<close>

theorem C7_rerun:
  "(day_counts gh clock1 = day_counts gh clock2 \<longrightarrow>
      except_lastUpdated (handler gh clock1 stamp1) =
      except_lastUpdated (handler gh clock2 stamp2)) \<and>
   clock_free (handler gh clock1 stamp1) = clock_free (handler gh clock2 stamp2)"
  using handler_days [of gh clock1 clock2 stamp1 stamp2]
    handler_clock_free [of gh clock1 stamp1 clock2 stamp2]
  by blast

theorem C7_rerun_witness:
  "day_counts github_roadmap (\<lambda>i. 45 * day + int i) = [Some (Number 5), Some (Number 45)] \<and>
   day_counts github_roadmap (\<lambda>i. 45 * day + 3600000 + 2 * int i) =
     [Some (Number 5), Some (Number 45)] \<and>
   except_lastUpdated (handler github_roadmap (\<lambda>i. 45 * day + int i)
       (js ''2024-06-01T10:00:00.000Z'')) =
   except_lastUpdated (handler github_roadmap (\<lambda>i. 45 * day + 3600000 + 2 * int i)
       (js ''2024-06-01T11:00:00.000Z''))"
proof -
  have d: "day_counts github_roadmap (\<lambda>i. 45 * day + int i) =
             [Some (Number 5), Some (Number 45)]"
    "day_counts github_roadmap (\<lambda>i. 45 * day + 3600000 + 2 * int i) =
             [Some (Number 5), Some (Number 45)]"
    by (simp_all add: day_counts_def repos_found_def roadmap_repos example_repos
        daysSinceUpdate_def listed_def day_def)
  with C7_rerun [of github_roadmap "\<lambda>i. 45 * day + int i"
      "\<lambda>i. 45 * day + 3600000 + 2 * int i"
      "js ''2024-06-01T10:00:00.000Z''" "js ''2024-06-01T11:00:00.000Z''"]
  show ?thesis by simp
qed

text \<open>
  The claim as stated fails for two runs a day apart: \<^verbatim>\<open>fresh-notes\<close> goes from 30
  days and \<^verbatim>\<open>active\<close> to 31 days and \<^verbatim>\<open>idle\<close>, and the two projects change
  places.
\<close>

theorem C7_rerun_counterexample:
  "map (\<lambda>p. (gp_id p, gp_status p, gp_daysSinceUpdate p))
     (projects_of (handler github_example (\<lambda>i. 70 * day) (js ''2024-06-01T10:00:00.000Z''))) =
     [(js ''old_engine'', js ''idle'', Some (Number 70)),
      (js ''fresh-notes'', js ''active'', Some (Number 30))] \<and>
   map (\<lambda>p. (gp_id p, gp_status p, gp_daysSinceUpdate p))
     (projects_of (handler github_example (\<lambda>i. 71 * day) (js ''2024-06-02T10:00:00.000Z''))) =
     [(js ''fresh-notes'', js ''idle'', Some (Number 31)),
      (js ''old_engine'', js ''idle'', Some (Number 71))] \<and>
   except_lastUpdated (handler github_example (\<lambda>i. 70 * day) (js ''2024-06-01T10:00:00.000Z'')) \<noteq>
   except_lastUpdated (handler github_example (\<lambda>i. 71 * day) (js ''2024-06-02T10:00:00.000Z''))"
proof -
  have a: "map (\<lambda>p. (gp_id p, gp_status p, gp_daysSinceUpdate p))
     (projects_of (handler github_example (\<lambda>i. 70 * day) (js ''2024-06-01T10:00:00.000Z''))) =
     [(js ''old_engine'', js ''idle'', Some (Number 70)),
      (js ''fresh-notes'', js ''active'', Some (Number 30))]"
    by (simp add: example_projects order_eval)
  have b: "map (\<lambda>p. (gp_id p, gp_status p, gp_daysSinceUpdate p))
     (projects_of (handler github_example (\<lambda>i. 71 * day) (js ''2024-06-02T10:00:00.000Z''))) =
     [(js ''fresh-notes'', js ''idle'', Some (Number 31)),
      (js ''old_engine'', js ''idle'', Some (Number 71))]"
    by (simp add: example_projects order_eval)
  have "except_lastUpdated (handler github_example (\<lambda>i. 70 * day) (js ''2024-06-01T10:00:00.000Z'')) \<noteq>
   except_lastUpdated (handler github_example (\<lambda>i. 71 * day) (js ''2024-06-02T10:00:00.000Z''))"
  proof
    assume "except_lastUpdated (handler github_example (\<lambda>i. 70 * day) (js ''2024-06-01T10:00:00.000Z'')) =
      except_lastUpdated (handler github_example (\<lambda>i. 71 * day) (js ''2024-06-02T10:00:00.000Z''))"
    from arg_cong [OF this, of projects_of]
    have "projects_of (handler github_example (\<lambda>i. 70 * day) (js ''2024-06-01T10:00:00.000Z'')) =
      projects_of (handler github_example (\<lambda>i. 71 * day) (js ''2024-06-02T10:00:00.000Z''))"
      by simp
    with a b show False by (simp add: js_eq_iff)
  qed
  with a b show ?thesis by blast
qed

end
